theory Spec2Isabelle
  imports Complex_Main
begin

text \<open>
  A model of the collector dashboard \<open>dashboard_local.py\<close>: the resolver of sharing links, the
  loader that reads the roster and the visit log and normalizes the visit log, the two
  aggregations of the analysis tabs, and the colour of the calendar heat map. Every function
  is modelled as a function of its arguments; what the program shows to the user is returned
  as a list of messages, and what it reads from the network is an argument.
\<close>

section \<open>Python strings\<close>

text \<open>
  Python strings are modelled as \<^typ>\<open>string\<close>. The model is exact on ASCII text:
  whitespace and letter case are those of the ASCII range, every other character is
  taken as neither whitespace nor cased.
\<close>

definition isspace :: "char \<Rightarrow> bool" where
  \<comment> \<open>\<open>str.isspace\<close> on one ASCII character: tab, newline, vertical tab, form feed,
      carriage return, the four separators 0x1c..0x1f and the space.\<close>
  "isspace c = (of_char c \<in> {9, 10, 11, 12, 13, 28, 29, 30, 31, 32 :: nat})"

definition strip :: "string \<Rightarrow> string" where
  \<comment> \<open>\<open>s.strip()\<close>\<close>
  "strip s = rev (dropWhile isspace (rev (dropWhile isspace s)))"

definition ascii_lowercase :: string where
  "ascii_lowercase = ''abcdefghijklmnopqrstuvwxyz''"

definition ascii_uppercase :: string where
  "ascii_uppercase = ''ABCDEFGHIJKLMNOPQRSTUVWXYZ''"

definition upper_char :: "char \<Rightarrow> char" where
  "upper_char c = (case map_of (zip ascii_lowercase ascii_uppercase) c of None \<Rightarrow> c | Some u \<Rightarrow> u)"

definition upper :: "string \<Rightarrow> string" where
  \<comment> \<open>\<open>s.upper()\<close>\<close>
  "upper s = map upper_char s"

fun startswith :: "string \<Rightarrow> string \<Rightarrow> bool" where
  \<comment> \<open>\<open>startswith p s\<close> is \<open>s.startswith(p)\<close>\<close>
  "startswith [] s = True"
| "startswith (p # ps) [] = False"
| "startswith (p # ps) (c # cs) = (p = c \<and> startswith ps cs)"

fun contains :: "string \<Rightarrow> string \<Rightarrow> bool" where
  \<comment> \<open>\<open>contains sub s\<close> is \<open>sub in s\<close>\<close>
  "contains sub [] = (sub = [])"
| "contains sub (c # cs) = (startswith sub (c # cs) \<or> contains sub cs)"

fun partition_str :: "string \<Rightarrow> string \<Rightarrow> (string \<times> string) option" where
  \<comment> \<open>The text before and after the leftmost occurrence of \<open>sep\<close>, if there is one.\<close>
  "partition_str sep [] = None"
| "partition_str sep (c # cs) =
     (if startswith sep (c # cs) then Some ([], drop (length sep) (c # cs))
      else (case partition_str sep cs of None \<Rightarrow> None | Some (b, a) \<Rightarrow> Some (c # b, a)))"

lemma partition_str_shorter:
  "partition_str sep s = Some (b, a) \<Longrightarrow> sep \<noteq> [] \<Longrightarrow> length a < length s"
  by (induction s arbitrary: b a) (auto split: if_splits option.splits)

function split :: "string \<Rightarrow> string \<Rightarrow> string list" where
  \<comment> \<open>\<open>split sep s\<close> is \<open>s.split(sep)\<close> for a non-empty separator (Python raises
      ValueError on an empty one; every call of the program passes a literal).\<close>
  "split sep s =
     (if sep = [] then [s]
      else (case partition_str sep s of None \<Rightarrow> [s] | Some (b, a) \<Rightarrow> b # split sep a))"
  by pat_completeness auto
termination
  by (relation "measure (\<lambda>(sep, s). length s)") (auto dest: partition_str_shorter)

declare split.simps [simp del]

section \<open>Exceptions and messages shown to the user\<close>

datatype exn =
    KeyError string
  | IndexError
  | OverflowError
  | ReadError string

datatype notice =
    Link_format_warning string
  | Missing_columns_error
  | Load_error exn
  | Select_comparison_group_info
  | No_records_info

text \<open>
  \<^term>\<open>Link_format_warning\<close> is the \<open>st.warning\<close> of \<open>get_gdrive_download_url\<close> and carries
  the offending link; \<^term>\<open>Missing_columns_error\<close> is the \<open>st.error\<close> of the required
  column check of the visit log; \<^term>\<open>Load_error\<close> is the \<open>st.error\<close> of the exception
  handler of \<open>load_data_from_gdrive\<close> and carries the exception;
  \<^term>\<open>Select_comparison_group_info\<close> and \<^term>\<open>No_records_info\<close> are the \<open>st.info\<close>
  messages of the analysis tabs.
\<close>

datatype level = St_info | St_warning | St_error

fun level_of :: "notice \<Rightarrow> level" where
  \<comment> \<open>The Streamlit call that shows the message: \<open>st.warning\<close> in line 26 for the link,
      \<open>st.error\<close> in lines 58 and 88 for the loader, \<open>st.info\<close> in line 404 for the empty
      comparison group and in lines 322 and 410 for a selection without records.\<close>
  "level_of (Link_format_warning link) = St_warning"
| "level_of Missing_columns_error = St_error"
| "level_of (Load_error e) = St_error"
| "level_of Select_comparison_group_info = St_info"
| "level_of No_records_info = St_info"

definition and_then :: "exn + 'a \<Rightarrow> ('a \<Rightarrow> exn + 'b) \<Rightarrow> exn + 'b" where
  \<comment> \<open>Sequencing of statements that may raise: the first exception ends the block.\<close>
  "and_then m f = (case m of Inl e \<Rightarrow> Inl e | Inr x \<Rightarrow> f x)"

definition getitem_list :: "'a list \<Rightarrow> nat \<Rightarrow> exn + 'a" where
  \<comment> \<open>\<open>xs[i]\<close> for a literal index \<open>i \<ge> 0\<close>\<close>
  "getitem_list xs i = (if i < length xs then Inr (xs ! i) else Inl IndexError)"

section \<open>The source resolver\<close>

definition file_id_of :: "string \<Rightarrow> exn + string" where
  \<comment> \<open>\<open>share_link.split('/d/')[1].split('/')[0]\<close>\<close>
  "file_id_of share_link =
     and_then (getitem_list (split ''/d/'' share_link) 1)
       (\<lambda>tail. getitem_list (split ''/'' tail) 0)"

definition get_gdrive_download_url :: "string \<Rightarrow> exn + (notice list \<times> string option)" where
  \<comment> \<open>The messages shown and the returned address (\<open>None\<close> is Python's \<open>None\<close>).\<close>
  "get_gdrive_download_url share_link =
     (if contains ''spreadsheets/d/'' share_link then
        and_then (file_id_of share_link) (\<lambda>file_id.
          Inr ([], Some (''https://docs.google.com/spreadsheets/d/'' @ file_id @ ''/export?format=xlsx'')))
      else if contains ''file/d/'' share_link then
        and_then (file_id_of share_link) (\<lambda>file_id.
          Inr ([], Some (''https://drive.google.com/uc?export=download&id='' @ file_id)))
      else Inr ([Link_format_warning share_link], None))"

section \<open>Cells of a table\<close>

text \<open>
  A cell is what pandas holds at one position of a table read from a spreadsheet: a null
  (\<open>NaN\<close>, \<open>NaT\<close> and \<open>None\<close> are one value here), a text, an integer, or a timestamp or
  calendar date. Numbers are Python integers, as in an integer or object column; a column
  that pandas holds as floating point (fractions, or numbers mixed with blanks) prints its
  numbers with a decimal point and is outside the model.
\<close>

record date =
  year :: nat
  month :: nat
  day :: nat

record timestamp =
  date :: date
  hour :: nat
  minute :: nat
  second :: nat

datatype cell =
    NaN
  | Text string
  | Number int
  | Stamp timestamp
  | Day date

function str_nat :: "nat \<Rightarrow> string" where
  \<comment> \<open>The decimal digits of a natural number.\<close>
  "str_nat n =
     (if n < 10 then [''0123456789'' ! n]
      else str_nat (n div 10) @ [''0123456789'' ! (n mod 10)])"
  by pat_completeness auto
termination
  by (relation "measure id") auto

declare str_nat.simps [simp del]

definition str_int :: "int \<Rightarrow> string" where
  \<comment> \<open>\<open>str(i)\<close> for a Python integer\<close>
  "str_int i = (if i < 0 then CHR ''-'' # str_nat (nat (- i)) else str_nat (nat i))"

definition zfill :: "nat \<Rightarrow> string \<Rightarrow> string" where
  "zfill width s = replicate (width - length s) CHR ''0'' @ s"

definition str_date :: "date \<Rightarrow> string" where
  \<comment> \<open>\<open>str(d)\<close> for a date: \<open>YYYY-MM-DD\<close>\<close>
  "str_date d = zfill 4 (str_nat (year d)) @ ''-'' @ zfill 2 (str_nat (month d)) @ ''-''
     @ zfill 2 (str_nat (day d))"

definition str_timestamp :: "timestamp \<Rightarrow> string" where
  \<comment> \<open>\<open>str(t)\<close> for a timestamp: \<open>YYYY-MM-DD HH:MM:SS\<close>\<close>
  "str_timestamp t = str_date (date t) @ '' '' @ zfill 2 (str_nat (hour t)) @ '':''
     @ zfill 2 (str_nat (minute t)) @ '':'' @ zfill 2 (str_nat (second t))"

fun str_of :: "cell \<Rightarrow> string" where
  \<comment> \<open>Python's \<open>str\<close> on the value of a cell; a null prints as \<open>nan\<close>.\<close>
  "str_of NaN = ''nan''"
| "str_of (Text s) = s"
| "str_of (Number i) = str_int i"
| "str_of (Stamp t) = str_timestamp t"
| "str_of (Day d) = str_date d"

definition astype_str :: "cell \<Rightarrow> cell" where
  \<comment> \<open>One element of \<open>series.astype(str)\<close>\<close>
  "astype_str c = Text (str_of c)"

fun str_strip :: "cell \<Rightarrow> cell" where
  \<comment> \<open>One element of \<open>series.str.strip()\<close>; the accessor gives a null for what is no text.\<close>
  "str_strip (Text s) = Text (strip s)"
| "str_strip c = NaN"

fun str_upper :: "cell \<Rightarrow> cell" where
  \<comment> \<open>One element of \<open>series.str.upper()\<close>\<close>
  "str_upper (Text s) = Text (upper s)"
| "str_upper c = NaN"

fun str_split_get :: "string \<Rightarrow> nat \<Rightarrow> cell \<Rightarrow> cell" where
  \<comment> \<open>One element of \<open>series.str.split(sep).str[i]\<close>; a missing part is a null.\<close>
  "str_split_get sep i (Text s) =
     (case getitem_list (split sep s) i of Inl e \<Rightarrow> NaN | Inr part \<Rightarrow> Text part)"
| "str_split_get sep i c = NaN"

subsection \<open>Parsing timestamps\<close>

text \<open>
  \<open>pd.to_datetime(series, format='%d/%m/%Y %H:%M:%S', errors='coerce')\<close> is a call into
  pandas. It is modelled for this one format: day, month, hour, minute and second are runs of
  one or two digits, the year is a run of four digits, the date and the time are separated by
  one or more whitespace characters, the whole text must match, and the fields must name a
  day of the calendar and a time of the day. Whatever does not parse becomes a null. The
  range of years that a pandas timestamp can hold is not modelled.
\<close>

definition isdigit :: "char \<Rightarrow> bool" where
  "isdigit c = (c \<in> set ''0123456789'')"

definition int_of_digits :: "string \<Rightarrow> nat" where
  \<comment> \<open>\<open>int(ds)\<close> for a text of decimal digits\<close>
  "int_of_digits ds = foldl (\<lambda>n c. 10 * n + (of_char c - 48)) 0 ds"

definition number_field :: "nat \<Rightarrow> nat \<Rightarrow> string \<Rightarrow> (nat \<times> string) option" where
  \<comment> \<open>A leading run of between \<open>lo\<close> and \<open>hi\<close> digits, and the text after it.\<close>
  "number_field lo hi s =
     (let ds = takeWhile isdigit s
      in if lo \<le> length ds \<and> length ds \<le> hi then Some (int_of_digits ds, dropWhile isdigit s)
         else None)"

fun literal :: "char \<Rightarrow> string \<Rightarrow> string option" where
  "literal c [] = None"
| "literal c (x # xs) = (if x = c then Some xs else None)"

fun whitespace :: "string \<Rightarrow> string option" where
  "whitespace [] = None"
| "whitespace (x # xs) = (if isspace x then Some (dropWhile isspace xs) else None)"

definition is_leap :: "nat \<Rightarrow> bool" where
  "is_leap y = (y mod 4 = 0 \<and> (y mod 100 \<noteq> 0 \<or> y mod 400 = 0))"

definition days_in_month :: "nat \<Rightarrow> nat \<Rightarrow> nat" where
  "days_in_month y m =
     (if m = 2 then (if is_leap y then 29 else 28)
      else if m \<in> {4, 6, 9, 11} then 30 else 31)"

definition strptime :: "string \<Rightarrow> timestamp option" where
  \<comment> \<open>The format \<open>%d/%m/%Y %H:%M:%S\<close>\<close>
  "strptime s =
     Option.bind (number_field 1 2 s) (\<lambda>(d, s).
     Option.bind (literal CHR ''/'' s) (\<lambda>s.
     Option.bind (number_field 1 2 s) (\<lambda>(m, s).
     Option.bind (literal CHR ''/'' s) (\<lambda>s.
     Option.bind (number_field 4 4 s) (\<lambda>(y, s).
     Option.bind (whitespace s) (\<lambda>s.
     Option.bind (number_field 1 2 s) (\<lambda>(H, s).
     Option.bind (literal CHR '':'' s) (\<lambda>s.
     Option.bind (number_field 1 2 s) (\<lambda>(M, s).
     Option.bind (literal CHR '':'' s) (\<lambda>s.
     Option.bind (number_field 1 2 s) (\<lambda>(S, s).
       if s = [] \<and> 1 \<le> y \<and> 1 \<le> m \<and> m \<le> 12 \<and> 1 \<le> d \<and> d \<le> days_in_month y m
          \<and> H \<le> 23 \<and> M \<le> 59 \<and> S \<le> 59
       then Some \<lparr>date = \<lparr>year = y, month = m, day = d\<rparr>, hour = H, minute = M, second = S\<rparr>
       else None)))))))))))"

fun to_datetime :: "cell \<Rightarrow> cell" where
  \<comment> \<open>One element of \<open>pd.to_datetime(series, format=..., errors='coerce')\<close>: a timestamp or
      a null. What is no text is printed and parsed as text; a cell that already holds a
      timestamp or a date keeps it.\<close>
  "to_datetime NaN = NaN"
| "to_datetime (Stamp t) = Stamp t"
| "to_datetime (Day d) = Stamp \<lparr>date = d, hour = 0, minute = 0, second = 0\<rparr>"
| "to_datetime c = (case strptime (str_of c) of None \<Rightarrow> NaN | Some t \<Rightarrow> Stamp t)"

fun dt_date :: "cell \<Rightarrow> cell" where
  \<comment> \<open>One element of \<open>series.dt.date\<close>\<close>
  "dt_date (Stamp t) = Day (date t)"
| "dt_date c = NaN"

section \<open>Tables\<close>

text \<open>
  A pandas table is its list of column names and its rows in order; a row gives the cell
  under each column name. Index labels are not modelled: no operation of the program reads
  them. Each operation of pandas that the program uses on a whole column works on every row
  by itself, and is modelled as a map or a filter over the rows.
\<close>

type_synonym row = "string \<Rightarrow> cell"

record frame =
  columns :: "string list"
  rows :: "row list"

type_synonym reader = "string \<Rightarrow> nat \<Rightarrow> exn + frame"

text \<open>
  A \<^typ>\<open>reader\<close> stands for \<open>pd.read_excel(url, header=h)\<close>: the network and the file
  behind an address, which either raise or give a table.
\<close>

definition rename_row :: "(string \<Rightarrow> string) \<Rightarrow> string list \<Rightarrow> row \<Rightarrow> row" where
  "rename_row f names r =
     (\<lambda>name. case find (\<lambda>c. f c = name) names of None \<Rightarrow> NaN | Some c \<Rightarrow> r c)"

definition rename_columns :: "(string \<Rightarrow> string) \<Rightarrow> frame \<Rightarrow> frame" where
  \<comment> \<open>\<open>df.columns = f(df.columns)\<close>; where two columns get one name, the first is read.\<close>
  "rename_columns f df =
     \<lparr>columns = map f (columns df), rows = map (rename_row f (columns df)) (rows df)\<rparr>"

definition getitem :: "frame \<Rightarrow> string \<Rightarrow> exn + cell list" where
  \<comment> \<open>\<open>df[name]\<close>\<close>
  "getitem df name =
     (if name \<in> set (columns df) then Inr (map (\<lambda>r. r name) (rows df)) else Inl (KeyError name))"

definition restrict_row :: "string list \<Rightarrow> row \<Rightarrow> row" where
  "restrict_row names r = (\<lambda>name. if name \<in> set names then r name else NaN)"

definition getitems :: "frame \<Rightarrow> string list \<Rightarrow> exn + frame" where
  \<comment> \<open>\<open>df[names].copy()\<close>\<close>
  "getitems df names =
     (case find (\<lambda>name. name \<notin> set (columns df)) names of
        Some name \<Rightarrow> Inl (KeyError name)
      | None \<Rightarrow> Inr \<lparr>columns = names, rows = map (restrict_row names) (rows df)\<rparr>)"

definition add_column :: "string \<Rightarrow> string list \<Rightarrow> string list" where
  "add_column name names = (if name \<in> set names then names else names @ [name])"

definition assign :: "string \<Rightarrow> (row \<Rightarrow> cell) \<Rightarrow> frame \<Rightarrow> frame" where
  \<comment> \<open>\<open>df[name] = ...\<close> with a value computed from each row\<close>
  "assign name f df =
     \<lparr>columns = add_column name (columns df), rows = map (\<lambda>r. r(name := f r)) (rows df)\<rparr>"

definition select_rows :: "(row \<Rightarrow> bool) \<Rightarrow> frame \<Rightarrow> frame" where
  \<comment> \<open>\<open>df[mask]\<close>\<close>
  "select_rows keep df = df\<lparr>rows := filter keep (rows df)\<rparr>"

definition dropna :: "string list \<Rightarrow> frame \<Rightarrow> frame" where
  \<comment> \<open>\<open>df.dropna(subset=names, inplace=True)\<close>, for columns the table has\<close>
  "dropna names df = select_rows (\<lambda>r. list_all (\<lambda>name. r name \<noteq> NaN) names) df"

definition unique :: "'a list \<Rightarrow> 'a list" where
  \<comment> \<open>\<open>series.unique()\<close>: the values in the order of their first appearance\<close>
  "unique xs = rev (remdups (rev xs))"

definition to_dict :: "frame \<Rightarrow> string \<Rightarrow> string \<Rightarrow> exn + (cell \<times> cell) list" where
  \<comment> \<open>\<open>df.set_index(key)[val].to_dict()\<close>, as the list of its items in row order\<close>
  "to_dict df key val =
     and_then (getitem df key) (\<lambda>ks. and_then (getitem df val) (\<lambda>vs. Inr (zip ks vs)))"

definition map_dict :: "(cell \<times> cell) list \<Rightarrow> cell \<Rightarrow> cell" where
  \<comment> \<open>One element of \<open>series.map(d)\<close>: the last item of a key counts, a missing key gives a
      null.\<close>
  "map_dict d c = (case map_of (rev d) c of None \<Rightarrow> NaN | Some v \<Rightarrow> v)"

definition empty_frame :: "frame \<Rightarrow> bool" where
  \<comment> \<open>\<open>df.empty\<close>\<close>
  "empty_frame df = (rows df = [] \<or> columns df = [])"

section \<open>The loader\<close>

text \<open>
  \<open>load_data_from_gdrive\<close> is modelled as it runs when its result is not served from the
  cache of \<open>st.cache_data\<close>.
\<close>

definition required_cols :: "string list" where
  "required_cols =
     [''Collector'', ''Create Time'', ''Neg Pos Unit'', ''Aging'', ''Contact Summary'', ''Customer Name'']"

definition prepare_groups :: "frame \<Rightarrow> exn + (frame \<times> (cell \<times> cell) list)" where
  \<comment> \<open>Lines 45 to 51 of \<open>load_data_from_gdrive\<close>: the roster after it is read.\<close>
  "prepare_groups groups_df =
     (let groups_df = rename_columns strip groups_df
      in and_then (getitem groups_df ''ID'') (\<lambda>ids.
         let groups_df = assign ''ID'' (\<lambda>r. str_strip (astype_str (r ''ID''))) groups_df;
             groups_df =
               (if ''Collector'' \<in> set (columns groups_df) \<and> ''Agent Name'' \<notin> set (columns groups_df)
                then rename_columns (\<lambda>c. if c = ''Collector'' then ''Agent Name'' else c) groups_df
                else groups_df)
         in and_then (to_dict groups_df ''ID'' ''Agent Name'') (\<lambda>collectors_info.
            Inr (groups_df, collectors_info))))"

definition derive_collector_id :: "frame \<Rightarrow> frame" where
  \<comment> \<open>Lines 64 to 66: the trimmed \<open>Collector\<close> and the \<open>Collector ID\<close> before its first
      \<open>-\<close>.\<close>
  "derive_collector_id visit_logs_df =
     (let visit_logs_df =
            assign ''Collector'' (\<lambda>r. str_strip (astype_str (r ''Collector''))) visit_logs_df
      in assign ''Collector ID'' (\<lambda>r. str_strip (str_split_get ''-'' 0 (r ''Collector'')))
           visit_logs_df)"

definition anti_join :: "frame \<Rightarrow> frame \<Rightarrow> frame" where
  \<comment> \<open>Lines 68 and 69: only the rows of a collector of the roster are kept.\<close>
  "anti_join groups_df visit_logs_df =
     (let valid_collector_ids = unique (map (\<lambda>r. r ''ID'') (rows groups_df))
      in select_rows (\<lambda>r. r ''Collector ID'' \<in> set valid_collector_ids) visit_logs_df)"

definition clean_visits :: "frame \<Rightarrow> (cell \<times> cell) list \<Rightarrow> frame \<Rightarrow> exn + frame" where
  \<comment> \<open>Lines 63 to 83 of \<open>load_data_from_gdrive\<close>: the visit log after its six columns are
      selected.\<close>
  "clean_visits groups_df collectors_info visit_logs_df =
     (let visit_logs_df = dropna [''Create Time'', ''Collector'', ''Aging''] visit_logs_df;
          visit_logs_df = derive_collector_id visit_logs_df;
          visit_logs_df = anti_join groups_df visit_logs_df;
          visit_logs_df =
            (if ''Neg Pos Unit'' \<in> set (columns visit_logs_df)
             then select_rows (\<lambda>r. str_strip (r ''Neg Pos Unit'') \<noteq> Text ''CancelRepossession'')
                    (assign ''Neg Pos Unit'' (\<lambda>r. astype_str (r ''Neg Pos Unit'')) visit_logs_df)
             else visit_logs_df);
          visit_logs_df = assign ''Create Time'' (\<lambda>r. to_datetime (r ''Create Time'')) visit_logs_df;
          visit_logs_df = dropna [''Create Time''] visit_logs_df;
          visit_logs_df = assign ''Date'' (\<lambda>r. dt_date (r ''Create Time'')) visit_logs_df;
          visit_logs_df =
            assign ''Collector Name'' (\<lambda>r. map_dict collectors_info (r ''Collector ID''))
              visit_logs_df
      in and_then (to_dict groups_df ''ID'' ''Group'') (\<lambda>group_map.
         let visit_logs_df =
               assign ''Group'' (\<lambda>r. map_dict group_map (r ''Collector ID'')) visit_logs_df;
             visit_logs_df =
               assign ''Aging'' (\<lambda>r. str_upper (str_strip (astype_str (r ''Aging'')))) visit_logs_df
         in Inr visit_logs_df))"

definition try_block ::
  "reader \<Rightarrow> string \<Rightarrow> string \<Rightarrow> exn + (notice list \<times> (frame \<times> frame) option)" where
  \<comment> \<open>The body of the \<open>try\<close> statement, lines 44 to 85: an exception that leaves it, or the
      messages shown and the pair returned.\<close>
  "try_block read_excel visit_download_url group_download_url =
     and_then (read_excel group_download_url 0) (\<lambda>groups_df.
     and_then (prepare_groups groups_df) (\<lambda>(groups_df, collectors_info).
     and_then (read_excel visit_download_url 1) (\<lambda>visit_logs_df.
     let visit_logs_df = rename_columns strip visit_logs_df
     in if \<not> list_all (\<lambda>col. col \<in> set (columns visit_logs_df)) required_cols
        then Inr ([Missing_columns_error], None)
        else and_then (getitems visit_logs_df required_cols) (\<lambda>visit_logs_df.
             and_then (clean_visits groups_df collectors_info visit_logs_df) (\<lambda>visit_logs_df.
             Inr ([], Some (visit_logs_df, groups_df)))))))"

definition load_data_from_gdrive ::
  "reader \<Rightarrow> string \<Rightarrow> string \<Rightarrow> exn + (notice list \<times> (frame \<times> frame) option)" where
  \<comment> \<open>The messages shown and the returned pair; \<open>None\<close> is the pair \<open>(None, None)\<close>. An
      \<open>Inl\<close> would be an exception that leaves the function.\<close>
  "load_data_from_gdrive read_excel visit_url group_url =
     and_then (get_gdrive_download_url visit_url) (\<lambda>(shown1, visit_download_url).
     and_then (get_gdrive_download_url group_url) (\<lambda>(shown2, group_download_url).
       (case (visit_download_url, group_download_url) of
          (Some v, Some g) \<Rightarrow>
            if v = [] \<or> g = [] then Inr (shown1 @ shown2, None)
            else (case try_block read_excel v g of
                    Inl e \<Rightarrow> Inr (shown1 @ shown2 @ [Load_error e], None)
                  | Inr (shown3, result) \<Rightarrow> Inr (shown1 @ shown2 @ shown3, result))
        | _ \<Rightarrow> Inr (shown1 @ shown2, None))))"

subsection \<open>The pipeline read row by row\<close>

text \<open>
  What lines 63 to 83 do to one row of the visit log: whether the row is kept, and the row
  it becomes. \<open>clean_visits_eq\<close> below proves that the table operations compute exactly this.
\<close>

definition collector_of :: "row \<Rightarrow> cell" where
  "collector_of r = str_strip (astype_str (r ''Collector''))"

definition collector_id_of :: "row \<Rightarrow> cell" where
  "collector_id_of r = str_strip (str_split_get ''-'' 0 (collector_of r))"

definition survives :: "frame \<Rightarrow> row \<Rightarrow> bool" where
  "survives groups_df r =
     (r ''Create Time'' \<noteq> NaN \<and> r ''Collector'' \<noteq> NaN \<and> r ''Aging'' \<noteq> NaN
      \<and> collector_id_of r \<in> (\<lambda>g. g ''ID'') ` set (rows groups_df)
      \<and> str_strip (astype_str (r ''Neg Pos Unit'')) \<noteq> Text ''CancelRepossession''
      \<and> to_datetime (r ''Create Time'') \<noteq> NaN)"

definition cleaned :: "(cell \<times> cell) list \<Rightarrow> (cell \<times> cell) list \<Rightarrow> row \<Rightarrow> row" where
  "cleaned collectors_info group_map r =
     r(''Collector'' := collector_of r,
       ''Collector ID'' := collector_id_of r,
       ''Neg Pos Unit'' := astype_str (r ''Neg Pos Unit''),
       ''Create Time'' := to_datetime (r ''Create Time''),
       ''Date'' := dt_date (to_datetime (r ''Create Time'')),
       ''Collector Name'' := map_dict collectors_info (collector_id_of r),
       ''Group'' := map_dict group_map (collector_id_of r),
       ''Aging'' := str_upper (str_strip (astype_str (r ''Aging''))))"

definition final_columns :: "string list \<Rightarrow> string list" where
  "final_columns names =
     add_column ''Aging'' (add_column ''Group'' (add_column ''Collector Name'' (add_column ''Date''
       (add_column ''Create Time'' (add_column ''Neg Pos Unit'' (add_column ''Collector ID''
         (add_column ''Collector'' names)))))))"

text \<open>
  The rest of the body of the \<open>try\<close> statement once the visit log is read (lines 54 to
  85); \<open>try_block_after_read\<close> below splits \<^term>\<open>try_block\<close> at this point.
\<close>

definition after_read ::
  "frame \<Rightarrow> (cell \<times> cell) list \<Rightarrow> frame \<Rightarrow> exn + (notice list \<times> (frame \<times> frame) option)" where
  "after_read groups_df collectors_info visit_logs_df =
     (let visit_logs_df = rename_columns strip visit_logs_df
      in if \<not> list_all (\<lambda>col. col \<in> set (columns visit_logs_df)) required_cols
         then Inr ([Missing_columns_error], None)
         else and_then (getitems visit_logs_df required_cols) (\<lambda>visit_logs_df.
              and_then (clean_visits groups_df collectors_info visit_logs_df) (\<lambda>visit_logs_df.
              Inr ([], Some (visit_logs_df, groups_df)))))"

section \<open>Aggregation for the analysis tabs\<close>

text \<open>
  The two analysis tabs count the rows of each aging label and order the labels by the
  number in them. The counts of the comparison group are divided by the size of the group
  (line 414); the counts are a column of 64-bit integers and the size is a Python integer, so
  both are converted to double precision and divided there. pandas sorts with an algorithm
  that leaves the order of equal keys open; the model keeps them in the order they had.
\<close>

subsection \<open>Double precision division\<close>

text \<open>
  A finite double is modelled by the rational number it denotes. The doubles are the numbers
  \<open>m * 2 ^ e\<close> with \<open>m < 2 ^ 53\<close>; a conversion or a division returns the double nearest to
  the exact result, and of two nearest ones the one with the even \<open>m\<close>. The limits of the
  exponent are not modelled: the operands here are counts of rows and of selected names,
  which are below \<open>2 ^ 63\<close>, so that no quotient leaves the range of the normal doubles.
\<close>

type_synonym float64 = rat

function bit_length :: "nat \<Rightarrow> nat" where
  \<comment> \<open>The number of binary digits of a number\<close>
  "bit_length n = (if n = 0 then 0 else Suc (bit_length (n div 2)))"
  by pat_completeness auto
termination
  by (relation "measure id") auto

declare bit_length.simps [simp del]

definition round_div :: "nat \<Rightarrow> nat \<Rightarrow> nat" where
  \<comment> \<open>The integer nearest to \<open>a / b\<close>, the even one of two nearest\<close>
  "round_div a b =
     (let m = a div b; r = a mod b
      in if 2 * r < b then m else if b < 2 * r then m + 1 else if even m then m else m + 1)"

definition pow2 :: "int \<Rightarrow> rat" where
  "pow2 e = (if 0 \<le> e then 2 ^ nat e else 1 / 2 ^ nat (- e))"

definition float64_of_nat :: "nat \<Rightarrow> nat" where
  \<comment> \<open>The double nearest to a natural number; it is a natural number again.\<close>
  "float64_of_nat n =
     (if n < 2 ^ 53 then n
      else let e = bit_length n - 53 in round_div n (2 ^ e) * 2 ^ e)"

definition scaled :: "nat \<Rightarrow> nat \<Rightarrow> int \<Rightarrow> nat \<times> nat" where
  \<comment> \<open>Numerator and denominator of \<open>(a / b) / 2 ^ e\<close>\<close>
  "scaled a b e = (if 0 \<le> e then (a, b * 2 ^ nat e) else (a * 2 ^ nat (- e), b))"

definition float64_div :: "nat \<Rightarrow> nat \<Rightarrow> float64" where
  \<comment> \<open>The quotient \<open>a / b\<close> of two doubles that are natural numbers, \<open>b\<close> not 0: the exponent
      \<open>e\<close> is the one with \<open>2 ^ 52 \<le> (a / b) / 2 ^ e < 2 ^ 53\<close>, and the quotient at that scale
      is rounded to an integer.\<close>
  "float64_div a b =
     (if a = 0 \<or> b = 0 then 0
      else let e0 = int (bit_length a) - int (bit_length b) - 53;
               e = (if fst (scaled a b e0) < 2 ^ 53 * snd (scaled a b e0) then e0 else e0 + 1)
           in of_nat (round_div (fst (scaled a b e)) (snd (scaled a b e))) * pow2 e)"

subsection \<open>The tables of the two tabs\<close>

datatype 'a panel = Message notice | Chart_data 'a

definition value_counts :: "cell list \<Rightarrow> (cell \<times> nat) list" where
  \<comment> \<open>\<open>series.value_counts().reset_index()\<close>: nulls are not counted, the largest count
      comes first.\<close>
  "value_counts xs =
     (let vs = filter (\<lambda>v. v \<noteq> NaN) xs
      in sort_key (\<lambda>(v, n). - int n) (map (\<lambda>v. (v, count_list vs v)) (unique vs)))"

definition first_digits :: "string \<Rightarrow> string" where
  \<comment> \<open>The first match of the pattern \<open>(\d+)\<close>, or the empty text when there is none.\<close>
  "first_digits s = takeWhile isdigit (dropWhile (\<lambda>c. \<not> isdigit c) s)"

fun str_extract_digits :: "cell \<Rightarrow> cell" where
  \<comment> \<open>One element of \<open>series.str.extract('(\d+)')\<close>\<close>
  "str_extract_digits (Text s) = (if first_digits s = [] then NaN else Text (first_digits s))"
| "str_extract_digits c = NaN"

definition aging_number :: "cell \<Rightarrow> int" where
  \<comment> \<open>The number in an aging label, and 0 for a label without digits (\<open>fillna(0)\<close>).\<close>
  "aging_number a =
     (case str_extract_digits a of Text ds \<Rightarrow> int (int_of_digits ds) | _ \<Rightarrow> 0)"

definition AgingSort :: "cell \<Rightarrow> exn + int" where
  \<comment> \<open>One element of \<open>series.str.extract('(\d+)').fillna(0).astype(int)\<close>: the conversion to
      a 64-bit integer raises on a number that does not fit.\<close>
  "AgingSort a = (if aging_number a < 2 ^ 63 then Inr (aging_number a) else Inl OverflowError)"

fun collect :: "(exn + 'a) list \<Rightarrow> exn + 'a list" where
  \<comment> \<open>The values of a column computed element by element; the first exception ends it.\<close>
  "collect [] = Inr []"
| "collect (x # xs) = and_then x (\<lambda>y. and_then (collect xs) (\<lambda>ys. Inr (y # ys)))"

definition with_AgingSort :: "(cell \<times> 'a) list \<Rightarrow> exn + (cell \<times> 'a \<times> int) list" where
  \<comment> \<open>The table of labels and counts with the column \<open>AgingSort\<close> added.\<close>
  "with_AgingSort counts =
     collect (map (\<lambda>(a, n). and_then (AgingSort a) (\<lambda>k. Inr (a, n, k))) counts)"

definition sort_values_AgingSort :: "(cell \<times> 'a \<times> int) list \<Rightarrow> (cell \<times> 'a \<times> int) list" where
  \<comment> \<open>\<open>df.sort_values('AgingSort')\<close>\<close>
  "sort_values_AgingSort t = sort_key (\<lambda>(a, n, k). k) t"

definition tab2_aging_counts :: "frame \<Rightarrow> exn + (cell \<times> nat \<times> int) list panel" where
  \<comment> \<open>Lines 321 to 327: \<open>aging_counts\<close> of the personal tab, from \<open>analysis_data\<close>. A row of
      the result is a label, its count and its sort key.\<close>
  "tab2_aging_counts analysis_data =
     (if empty_frame analysis_data then Inr (Message No_records_info)
      else and_then (getitem analysis_data ''Aging'') (\<lambda>aging.
           and_then (with_AgingSort (value_counts aging)) (\<lambda>aging_counts.
           Inr (Chart_data (sort_values_AgingSort aging_counts)))))"

definition tab3_aging_counts_comp ::
  "frame \<Rightarrow> cell list \<Rightarrow> exn + (cell \<times> float64 \<times> int) list panel" where
  \<comment> \<open>Lines 403 to 417: \<open>aging_counts_comp\<close> of the comparison tab, from \<open>comp_data\<close> and the
      selected \<open>comparison_collectors\<close>. A row of the result is a label, its average and its
      sort key. Line 414 is the division of the column of counts by the size of the group, in
      double precision.\<close>
  "tab3_aging_counts_comp comp_data comparison_collectors =
     (if comparison_collectors = [] then Inr (Message Select_comparison_group_info)
      else and_then (getitem comp_data ''Collector Name'') (\<lambda>names.
           let comparison_data =
                 select_rows (\<lambda>r. r ''Collector Name'' \<in> set comparison_collectors) comp_data
           in if empty_frame comparison_data then Inr (Message No_records_info)
              else and_then (getitem comparison_data ''Aging'') (\<lambda>aging.
                   let aging_counts_comp =
                         map (\<lambda>(a, n). (a, float64_div (float64_of_nat n)
                                            (float64_of_nat (length comparison_collectors))))
                           (value_counts aging)
                   in and_then (with_AgingSort aging_counts_comp) (\<lambda>aging_counts_comp.
                      Inr (Chart_data (sort_values_AgingSort aging_counts_comp))))))"

section \<open>The calendar heat map\<close>

text \<open>
  The colour is returned as a text by the program: the hexadecimal colour of an empty day, or
  \<open>hsl(220, 80%, l%)\<close> with the lightness \<open>l\<close> computed in floating point. The model keeps
  the three numbers, as exact rationals.
\<close>

datatype color = Hex string | Hsl rat rat rat

definition get_heatmap_color :: "int \<Rightarrow> int \<Rightarrow> color" where
  "get_heatmap_color count max_count =
     (if count = 0 then Hex ''#F3F4F6''
      else let normalized =
                 (of_int count / of_int (if max_count = 0 then 1 else max_count)) * (9 / 10) + 1 / 10;
               lightness = 95 - normalized * 55
           in Hsl 220 80 lightness)"

section \<open>Example tables\<close>

definition example_groups :: frame where
  "example_groups =
     \<lparr>columns = [''ID'', ''Agent Name'', ''Group''],
      rows = [(\<lambda>_. NaN)(''ID'' := Text ''101'', ''Agent Name'' := Text ''A-Smith'',
                ''Group'' := Text ''T1'')]\<rparr>"

definition example_visit_row :: row where
  "example_visit_row =
     (\<lambda>_. NaN)(''Collector'' := Text ''101-A-Smith'',
       ''Create Time'' := Text ''01/06/2024 09:00:00'',
       ''Neg Pos Unit'' := Text ''Visit'',
       ''Aging'' := Text ''m3'',
       ''Contact Summary'' := Text ''ok'',
       ''Customer Name'' := Text ''Cust1'')"

definition example_log_row :: row where
  "example_log_row =
     (\<lambda>_. NaN)(''Collector'' := Text ''101-A-Smith'',
       ''Create Time'' := Stamp \<lparr>date = \<lparr>year = 2024, month = 6, day = 1\<rparr>,
                                 hour = 9, minute = 0, second = 0\<rparr>,
       ''Neg Pos Unit'' := Text ''Visit'',
       ''Aging'' := Text ''M3'',
       ''Contact Summary'' := Text ''ok'',
       ''Customer Name'' := Text ''Cust1'',
       ''Collector ID'' := Text ''101'',
       ''Date'' := Day \<lparr>year = 2024, month = 6, day = 1\<rparr>,
       ''Collector Name'' := Text ''A-Smith'',
       ''Group'' := Text ''T1'')"

definition sheet :: "row list \<Rightarrow> frame" where
  \<comment> \<open>A visit log with the six required columns.\<close>
  "sheet rs = \<lparr>columns = required_cols, rows = rs\<rparr>"

definition example_logs :: frame where
  "example_logs =
     \<lparr>columns = required_cols @ [''Collector ID'', ''Date'', ''Collector Name'', ''Group''],
      rows = [example_log_row]\<rparr>"

definition visit_link :: string where
  "visit_link = ''https://drive.google.com/file/d/V/view''"

definition group_link :: string where
  "group_link = ''https://docs.google.com/spreadsheets/d/G/edit''"

definition example_reader :: "frame \<Rightarrow> frame \<Rightarrow> reader" where
  \<comment> \<open>The roster behind the address of \<^term>\<open>group_link\<close>, the visit log behind that of
      \<^term>\<open>visit_link\<close>, and nothing anywhere else.\<close>
  "example_reader groups visits url header =
     (if url = ''https://docs.google.com/spreadsheets/d/G/export?format=xlsx'' \<and> header = 0
      then Inr groups
      else if url = ''https://drive.google.com/uc?export=download&id=V'' \<and> header = 1
      then Inr visits
      else Inl (ReadError url))"

definition example_comp :: frame where
  "example_comp =
     \<lparr>columns = [''Collector Name'', ''Aging''],
      rows = map (\<lambda>(n, a). (\<lambda>_. NaN)(''Collector Name'' := Text n, ''Aging'' := Text a))
               [(''A'', ''M3''), (''B'', ''M2''), (''A'', ''M3''), (''C'', ''M10''), (''B'', ''X'')]\<rparr>"

definition blank_aging_row :: row where
  "blank_aging_row = example_visit_row(''Aging'' := Text '' '')"

definition blank_aging_log_row :: row where
  "blank_aging_log_row = example_log_row(''Aging'' := Text '''')"

definition lowercase_unit_row :: row where
  "lowercase_unit_row = example_visit_row(''Neg Pos Unit'' := Text ''cancelrepossession'')"

definition lowercase_unit_log_row :: row where
  "lowercase_unit_log_row = example_log_row(''Neg Pos Unit'' := Text ''cancelrepossession'')"

definition cancelled_row :: row where
  "cancelled_row = example_visit_row(''Neg Pos Unit'' := Text '' CancelRepossession '')"

definition whole_id_row :: row where
  "whole_id_row = example_visit_row(''Collector'' := Text '' 101 '')"

definition no_id_groups :: frame where
  "no_id_groups = \<lparr>columns = [''Agent Name'', ''Group''], rows = []\<rparr>"

definition no_aging_visits :: frame where
  "no_aging_visits =
     \<lparr>columns = [''Collector'', ''Create Time'', ''Neg Pos Unit'', ''Contact Summary'', ''Customer Name''],
      rows = []\<rparr>"

definition failing_reader :: reader where
  "failing_reader url header = Inl (ReadError url)"

section \<open>Lemmas\<close>

subsection \<open>Strings\<close>

lemma rstrip_prefix: "\<exists>zs. xs = rev (dropWhile P (rev xs)) @ zs \<and> (\<forall>z\<in>set zs. P z)"
proof -
  have "rev xs = takeWhile P (rev xs) @ dropWhile P (rev xs)" by simp
  then have "xs = rev (dropWhile P (rev xs)) @ rev (takeWhile P (rev xs))"
    by (metis rev_append rev_rev_ident)
  moreover have "\<forall>z\<in>set (rev (takeWhile P (rev xs))). P z"
    by (auto dest: set_takeWhileD)
  ultimately show ?thesis by blast
qed

lemma dropWhile_id: "xs = [] \<or> \<not> P (hd xs) \<Longrightarrow> dropWhile P xs = xs"
  by (cases xs) auto

lemma strip_fixed:
  assumes "s = [] \<or> (\<not> isspace (hd s) \<and> \<not> isspace (last s))"
  shows "strip s = s"
proof (cases "s = []")
  case True
  then show ?thesis by (simp add: strip_def)
next
  case False
  with assms have h: "\<not> isspace (hd s)" and l: "\<not> isspace (last s)" by auto
  have "dropWhile isspace s = s" using h False by (simp add: dropWhile_id)
  moreover have "dropWhile isspace (rev s) = rev s"
    using l False by (intro dropWhile_id) (simp add: hd_rev)
  ultimately show ?thesis by (simp add: strip_def)
qed

lemma strip_ends:
  "strip s = [] \<or> (\<not> isspace (hd (strip s)) \<and> \<not> isspace (last (strip s)))"
proof (cases "strip s = []")
  case True
  then show ?thesis by simp
next
  case False
  let ?l = "dropWhile isspace s"
  let ?d = "dropWhile isspace (rev ?l)"
  have d: "?d \<noteq> []" using False by (simp add: strip_def)
  then have "\<not> isspace (hd ?d)" by (metis hd_dropWhile)
  then have last: "\<not> isspace (last (strip s))" using d by (simp add: strip_def last_rev)
  obtain zs where zs: "?l = strip s @ zs" using rstrip_prefix [of ?l isspace] by (auto simp: strip_def)
  have "rev ?l \<noteq> []" using d by (metis dropWhile.simps(1))
  then have "?l \<noteq> []" by (metis rev_is_Nil_conv)
  then have "\<not> isspace (hd ?l)" by (metis hd_dropWhile)
  moreover have "hd ?l = hd (strip s)" using zs False by (metis hd_append2)
  ultimately show ?thesis using last by simp
qed

lemma strip_idem: "strip (strip s) = strip s"
  by (rule strip_fixed) (rule strip_ends)

lemma strip_empty_iff: "strip s = [] \<longleftrightarrow> list_all isspace s"
proof
  assume "strip s = []"
  then have "dropWhile isspace (rev (dropWhile isspace s)) = []" by (simp add: strip_def)
  then have "\<forall>c\<in>set (dropWhile isspace s). isspace c" by (simp add: dropWhile_eq_Nil_conv)
  moreover have "\<forall>c\<in>set (takeWhile isspace s). isspace c" by (auto dest: set_takeWhileD)
  moreover have "set s = set (takeWhile isspace s) \<union> set (dropWhile isspace s)"
    by (metis set_append takeWhile_dropWhile_id)
  ultimately show "list_all isspace s" by (auto simp: list_all_iff)
next
  assume "list_all isspace s"
  then have h: "dropWhile isspace s = []" by (induction s) auto
  show "strip s = []" unfolding strip_def h by simp
qed

lemma upper_char_cases:
  "upper_char c = c \<or> (c \<in> set ascii_lowercase \<and> upper_char c \<in> set ascii_uppercase)"
  by (simp add: upper_char_def ascii_lowercase_def ascii_uppercase_def)

lemma upper_char_idem: "upper_char (upper_char c) = upper_char c"
  using upper_char_cases [of c]
  by (auto simp: upper_char_def ascii_lowercase_def ascii_uppercase_def)

lemma isspace_upper_char: "isspace (upper_char c) = isspace c"
  using upper_char_cases [of c]
  by (auto simp: upper_char_def ascii_lowercase_def ascii_uppercase_def isspace_def)

lemma upper_idem: "upper (upper s) = upper s"
  by (simp add: upper_def upper_char_idem)

lemma dropWhile_upper: "dropWhile isspace (map upper_char s) = map upper_char (dropWhile isspace s)"
  by (induction s) (auto simp: isspace_upper_char)

lemma strip_upper: "strip (upper s) = upper (strip s)"
  by (simp add: strip_def upper_def dropWhile_upper rev_map)

lemma partition_str_None: "c \<notin> set s \<Longrightarrow> partition_str [c] s = None"
  by (induction s) auto

lemma split_no_separator: "c \<notin> set s \<Longrightarrow> split [c] s = [s]"
  by (simp add: split.simps partition_str_None)

subsection \<open>Tables\<close>

lemma rows_assign: "rows (assign name f df) = map (\<lambda>r. r(name := f r)) (rows df)"
  by (simp add: assign_def)

lemma columns_assign: "columns (assign name f df) = add_column name (columns df)"
  by (simp add: assign_def)

lemma in_add_column: "name' \<in> set names \<Longrightarrow> name' \<in> set (add_column name names)"
  by (simp add: add_column_def)

lemma rows_select_rows: "rows (select_rows keep df) = filter keep (rows df)"
  by (simp add: select_rows_def)

lemma columns_select_rows: "columns (select_rows keep df) = columns df"
  by (simp add: select_rows_def)

lemma rows_dropna:
  "rows (dropna names df) = filter (\<lambda>r. list_all (\<lambda>name. r name \<noteq> NaN) names) (rows df)"
  by (simp add: dropna_def select_rows_def)

lemma columns_dropna: "columns (dropna names df) = columns df"
  by (simp add: dropna_def select_rows_def)

lemma set_unique: "set (unique xs) = set xs"
  by (simp add: unique_def)

lemma clean_visits_eq:
  assumes "''Neg Pos Unit'' \<in> set (columns df)"
  shows "clean_visits groups_df collectors_info df =
           and_then (to_dict groups_df ''ID'' ''Group'') (\<lambda>group_map.
             Inr \<lparr>columns = final_columns (columns df),
                  rows = map (cleaned collectors_info group_map)
                           (filter (survives groups_df) (rows df))\<rparr>)"
proof (cases "to_dict groups_df ''ID'' ''Group''")
  case (Inl e)
  then show ?thesis by (simp add: clean_visits_def Let_def and_then_def)
next
  case (Inr group_map)
  have cols: "''Neg Pos Unit'' \<in> set (columns (anti_join groups_df (derive_collector_id (dropna ns df))))"
    for ns
    using assms
    by (simp add: anti_join_def derive_collector_id_def Let_def columns_select_rows columns_assign
          columns_dropna in_add_column)
  show ?thesis
    apply (simp add: clean_visits_def Let_def and_then_def cols Inr)
    apply (simp add: anti_join_def derive_collector_id_def Let_def assign_def select_rows_def
             dropna_def filter_map o_def set_unique final_columns_def)
    apply (rule arg_cong2 [where f = map])
     apply (rule ext)
     apply (simp add: cleaned_def collector_of_def collector_id_of_def fun_eq_iff)
    apply (rule filter_cong [OF refl])
    apply (auto simp: survives_def collector_of_def collector_id_of_def)
    done
qed

subsection \<open>The resolver and the loader\<close>

lemma startswith_contains: "startswith q s \<Longrightarrow> contains q s"
  by (cases s; cases q) auto

lemma startswith_append_contains: "startswith (p @ q) s \<Longrightarrow> contains q s"
proof (induction p arbitrary: s)
  case Nil
  then show ?case by (simp add: startswith_contains)
next
  case (Cons x p)
  then show ?case by (cases s) auto
qed

lemma contains_suffix: "contains (p @ q) s \<Longrightarrow> contains q s"
proof (induction s)
  case Nil
  then show ?case by simp
next
  case (Cons c s)
  from Cons.prems have "startswith (p @ q) (c # s) \<or> contains (p @ q) s" by simp
  then show ?case
  proof
    assume "startswith (p @ q) (c # s)"
    then show ?thesis by (rule startswith_append_contains)
  next
    assume "contains (p @ q) s"
    then show ?thesis using Cons.IH by simp
  qed
qed

lemma contains_partition_str:
  "contains sep s \<Longrightarrow> sep \<noteq> [] \<Longrightarrow> \<exists>b a. partition_str sep s = Some (b, a)"
  by (induction s) auto

lemma split_not_Nil: "split sep s \<noteq> []"
  by (subst split.simps) (auto split: option.splits)

lemma split_two_parts:
  assumes "contains sep s" and "sep \<noteq> []"
  shows "2 \<le> length (split sep s)"
proof -
  from assms obtain b a where "partition_str sep s = Some (b, a)"
    using contains_partition_str by blast
  then have "split sep s = b # split sep a" using assms(2) by (subst split.simps) simp
  moreover have "1 \<le> length (split sep a)"
    using split_not_Nil [of sep a] by (cases "split sep a") auto
  ultimately show ?thesis by simp
qed

lemma file_id_of_defined:
  assumes "contains ''/d/'' share_link"
  shows "\<exists>file_id. file_id_of share_link = Inr file_id"
proof -
  have "1 < length (split ''/d/'' share_link)"
    using split_two_parts [OF assms] by simp
  moreover have "0 < length (split ''/'' t)" for t
    using split_not_Nil [of "''/''" t] by simp
  ultimately show ?thesis
    by (simp add: file_id_of_def getitem_list_def and_then_def)
qed

lemma get_gdrive_download_url_cases:
  "(\<exists>url. url \<noteq> [] \<and> get_gdrive_download_url share_link = Inr ([], Some url))
   \<or> get_gdrive_download_url share_link = Inr ([Link_format_warning share_link], None)"
proof -
  have a: "contains ''spreadsheets/d/'' share_link \<Longrightarrow> contains ''/d/'' share_link"
    using contains_suffix [of "''spreadsheets''" "''/d/''" share_link] by simp
  have b: "contains ''file/d/'' share_link \<Longrightarrow> contains ''/d/'' share_link"
    using contains_suffix [of "''file''" "''/d/''" share_link] by simp
  show ?thesis
    using a b file_id_of_defined [of share_link]
    by (auto simp: get_gdrive_download_url_def and_then_def)
qed

lemma load_cases:
  "(\<exists>v g shown result. v \<noteq> [] \<and> g \<noteq> []
      \<and> get_gdrive_download_url visit_url = Inr ([], Some v)
      \<and> get_gdrive_download_url group_url = Inr ([], Some g)
      \<and> ((\<exists>e. try_block read_excel v g = Inl e
               \<and> load_data_from_gdrive read_excel visit_url group_url = Inr ([Load_error e], None))
           \<or> (try_block read_excel v g = Inr (shown, result)
               \<and> load_data_from_gdrive read_excel visit_url group_url = Inr (shown, result))))
   \<or> (\<exists>shown. load_data_from_gdrive read_excel visit_url group_url = Inr (shown, None)
         \<and> shown \<noteq> [] \<and> set shown \<subseteq> {Link_format_warning visit_url, Link_format_warning group_url})"
  using get_gdrive_download_url_cases [of visit_url] get_gdrive_download_url_cases [of group_url]
  by (auto simp: load_data_from_gdrive_def and_then_def split: sum.splits)

lemma try_block_success:
  assumes "try_block read_excel v g = Inr (shown, Some (visit_logs, groups_info))"
  shows "\<exists>groups_raw collectors_info visits_raw df.
           read_excel g 0 = Inr groups_raw
           \<and> prepare_groups groups_raw = Inr (groups_info, collectors_info)
           \<and> read_excel v 1 = Inr visits_raw
           \<and> getitems (rename_columns strip visits_raw) required_cols = Inr df
           \<and> clean_visits groups_info collectors_info df = Inr visit_logs
           \<and> shown = []"
  using assms
  by (auto simp: try_block_def and_then_def Let_def split: sum.splits if_splits)

lemma getitems_columns: "getitems df names = Inr df' \<Longrightarrow> columns df' = names"
  by (auto simp: getitems_def split: option.splits)

subsection \<open>The example tables, evaluated\<close>

lemmas string_eval =
  strip_def isspace_def upper_def upper_char_def ascii_lowercase_def ascii_uppercase_def
  split.simps getitem_list_def str_int_def str_nat.simps

lemmas datetime_eval =
  strptime_def number_field_def isdigit_def int_of_digits_def days_in_month_def is_leap_def

lemmas frame_eval =
  rename_columns_def rename_row_def getitem_def getitems_def restrict_row_def add_column_def
  assign_def select_rows_def dropna_def unique_def to_dict_def map_dict_def and_then_def
  astype_str_def required_cols_def

lemma example_urls:
  "get_gdrive_download_url visit_link
     = Inr ([], Some ''https://drive.google.com/uc?export=download&id=V'')"
  "get_gdrive_download_url group_link
     = Inr ([], Some ''https://docs.google.com/spreadsheets/d/G/export?format=xlsx'')"
  by (simp_all add: visit_link_def group_link_def get_gdrive_download_url_def file_id_of_def
        and_then_def split.simps getitem_list_def)

lemma example_prepare_groups:
  "prepare_groups example_groups = Inr (example_groups, [(Text ''101'', Text ''A-Smith'')])"
  by (simp add: prepare_groups_def example_groups_def frame_eval string_eval Let_def fun_eq_iff)

lemma example_to_dict_group:
  "to_dict example_groups ''ID'' ''Group'' = Inr [(Text ''101'', Text ''T1'')]"
  by (simp add: to_dict_def getitem_def and_then_def example_groups_def)

lemma rename_strip_sheet: "rename_columns strip (sheet rs) = sheet (map (rename_row strip required_cols) rs)"
  by (simp add: sheet_def rename_columns_def required_cols_def strip_def isspace_def)

lemma getitems_sheet: "getitems (sheet rs) required_cols = Inr (sheet (map (restrict_row required_cols) rs))"
  by (simp add: sheet_def getitems_def required_cols_def)

lemma required_cols_sheet: "list_all (\<lambda>col. col \<in> set (columns (sheet rs))) required_cols"
  by (simp add: sheet_def list_all_iff)

lemma try_block_sheet:
  "try_block (example_reader example_groups (sheet rs))
     ''https://drive.google.com/uc?export=download&id=V''
     ''https://docs.google.com/spreadsheets/d/G/export?format=xlsx''
   = and_then (clean_visits example_groups [(Text ''101'', Text ''A-Smith'')]
                 (sheet (map (\<lambda>r. restrict_row required_cols (rename_row strip required_cols r)) rs)))
       (\<lambda>visit_logs_df. Inr ([], Some (visit_logs_df, example_groups)))"
  by (simp add: try_block_def example_reader_def example_prepare_groups and_then_def Let_def
        rename_strip_sheet getitems_sheet required_cols_sheet comp_def)

lemma load_sheet:
  "load_data_from_gdrive (example_reader example_groups (sheet rs)) visit_link group_link
   = (case clean_visits example_groups [(Text ''101'', Text ''A-Smith'')]
             (sheet (map (\<lambda>r. restrict_row required_cols (rename_row strip required_cols r)) rs)) of
        Inl e \<Rightarrow> Inr ([Load_error e], None)
      | Inr visit_logs_df \<Rightarrow> Inr ([], Some (visit_logs_df, example_groups)))"
  by (simp add: load_data_from_gdrive_def example_urls try_block_sheet and_then_def split: sum.splits)

lemma clean_visits_sheet:
  "clean_visits example_groups [(Text ''101'', Text ''A-Smith'')] (sheet rs)
   = Inr \<lparr>columns = required_cols @ [''Collector ID'', ''Date'', ''Collector Name'', ''Group''],
          rows = map (cleaned [(Text ''101'', Text ''A-Smith'')] [(Text ''101'', Text ''T1'')])
                   (filter (survives example_groups) rs)\<rparr>"
proof -
  have "''Neg Pos Unit'' \<in> set (columns (sheet rs))"
    by (simp add: sheet_def required_cols_def)
  moreover have "final_columns (columns (sheet rs))
      = required_cols @ [''Collector ID'', ''Date'', ''Collector Name'', ''Group'']"
    by (simp add: final_columns_def add_column_def sheet_def required_cols_def)
  ultimately show ?thesis
    by (simp add: clean_visits_eq example_to_dict_group and_then_def) (simp add: sheet_def)
qed

lemma example_row_read:
  "restrict_row required_cols (rename_row strip required_cols example_visit_row) = example_visit_row"
  by (simp add: example_visit_row_def restrict_row_def rename_row_def required_cols_def
        strip_def isspace_def fun_eq_iff)

lemma example_collector_id: "collector_id_of example_visit_row = Text ''101''"
  by (simp add: example_visit_row_def collector_id_of_def collector_of_def astype_str_def string_eval)

lemma example_strptime:
  "strptime ''01/06/2024 09:00:00''
     = Some \<lparr>date = \<lparr>year = 2024, month = 6, day = 1\<rparr>, hour = 9, minute = 0, second = 0\<rparr>"
  by (simp add: datetime_eval isspace_def)

lemma example_survives: "survives example_groups example_visit_row"
  unfolding survives_def example_collector_id
  by (simp add: example_visit_row_def example_strptime example_groups_def astype_str_def
        strip_def isspace_def)

lemma example_cleaned:
  "cleaned [(Text ''101'', Text ''A-Smith'')] [(Text ''101'', Text ''T1'')] example_visit_row
   = example_log_row"
  unfolding cleaned_def example_collector_id
  by (simp add: example_visit_row_def example_log_row_def fun_eq_iff example_strptime
        collector_of_def astype_str_def map_dict_def string_eval)

lemma example_load:
  "load_data_from_gdrive (example_reader example_groups (sheet [example_visit_row]))
     visit_link group_link = Inr ([], Some (example_logs, example_groups))"
  by (simp add: load_sheet example_row_read clean_visits_sheet example_survives example_cleaned
        example_logs_def)

subsection \<open>Rows of the normalized table\<close>

lemma to_datetime_cases: "to_datetime c = NaN \<or> (\<exists>t. to_datetime c = Stamp t)"
  by (cases c) (auto split: option.splits)

lemma str_nat_digits: "str_nat n \<noteq> [] \<and> set (str_nat n) \<subseteq> set ''0123456789''"
proof (induction n rule: str_nat.induct)
  case (1 n)
  have d: "''0123456789'' ! k \<in> set ''0123456789''" if "k < 10" for k
    using that nth_mem [of k "''0123456789''"] by simp
  show ?case
  proof (cases "n < 10")
    case True
    then show ?thesis using d [of n] by (subst (1 2) str_nat.simps) simp
  next
    case False
    then show ?thesis using 1 d [of "n mod 10"] by (subst (1 2) str_nat.simps) simp
  qed
qed

lemma str_nat_not_blank: "\<not> list_all isspace (str_nat n)"
proof -
  from str_nat_digits [of n] obtain c where "c \<in> set (str_nat n)" "c \<in> set ''0123456789''"
    by (cases "str_nat n") auto
  then have "c \<in> set (str_nat n)" "\<not> isspace c" by (auto simp: isspace_def)
  then show ?thesis by (auto simp: list_all_iff)
qed

lemma str_date_not_blank: "\<not> list_all isspace (str_date d)"
  by (simp add: str_date_def isspace_def)

lemma str_of_blank:
  assumes "c \<noteq> NaN" and "list_all isspace (str_of c)"
  shows "\<exists>w. c = Text w \<and> list_all isspace w"
  using assms
  by (cases c) (auto simp: str_int_def str_nat_not_blank str_timestamp_def str_date_not_blank
      isspace_def split: if_splits)

lemma upper_Nil_iff: "upper s = [] \<longleftrightarrow> s = []"
  by (simp add: upper_def)

lemma load_success:
  assumes "load_data_from_gdrive read_excel visit_url group_url = Inr (shown, Some (visit_logs, groups_info))"
  shows "\<exists>v g groups_raw collectors_info visits_raw df.
           get_gdrive_download_url visit_url = Inr ([], Some v)
           \<and> get_gdrive_download_url group_url = Inr ([], Some g)
           \<and> read_excel g 0 = Inr groups_raw
           \<and> prepare_groups groups_raw = Inr (groups_info, collectors_info)
           \<and> read_excel v 1 = Inr visits_raw
           \<and> getitems (rename_columns strip visits_raw) required_cols = Inr df
           \<and> clean_visits groups_info collectors_info df = Inr visit_logs
           \<and> shown = []"
proof -
  from load_cases [of visit_url group_url read_excel] assms
  obtain v g where urls: "get_gdrive_download_url visit_url = Inr ([], Some v)"
      "get_gdrive_download_url group_url = Inr ([], Some g)"
    and tb: "try_block read_excel v g = Inr (shown, Some (visit_logs, groups_info))"
    by auto
  from try_block_success [OF tb] urls show ?thesis by blast
qed

lemma clean_visits_rows:
  assumes "''Neg Pos Unit'' \<in> set (columns df)"
      and "clean_visits groups_df collectors_info df = Inr out"
    shows "\<exists>group_map. to_dict groups_df ''ID'' ''Group'' = Inr group_map
             \<and> columns out = final_columns (columns df)
             \<and> rows out = map (cleaned collectors_info group_map)
                             (filter (survives groups_df) (rows df))"
proof (cases "to_dict groups_df ''ID'' ''Group''")
  case (Inl e)
  with assms show ?thesis by (simp add: clean_visits_eq and_then_def)
next
  case (Inr group_map)
  with assms have "out = \<lparr>columns = final_columns (columns df),
      rows = map (cleaned collectors_info group_map) (filter (survives groups_df) (rows df))\<rparr>"
    by (simp add: clean_visits_eq and_then_def)
  then show ?thesis using Inr by simp
qed

lemma rename_strip_required: "rename_row strip required_cols r = restrict_row required_cols r"
  by (auto simp: rename_row_def restrict_row_def required_cols_def strip_def isspace_def fun_eq_iff)

lemma row_read:
  assumes "\<And>name. name \<notin> set required_cols \<Longrightarrow> r name = NaN"
  shows "restrict_row required_cols (rename_row strip required_cols r) = r"
  using assms by (auto simp: rename_strip_required restrict_row_def fun_eq_iff)

lemma load_one_row:
  assumes "\<And>name. name \<notin> set required_cols \<Longrightarrow> r name = NaN"
      and "survives example_groups r"
  shows "load_data_from_gdrive (example_reader example_groups (sheet [r])) visit_link group_link
         = Inr ([], Some (\<lparr>columns = required_cols @ [''Collector ID'', ''Date'', ''Collector Name'', ''Group''],
                           rows = [cleaned [(Text ''101'', Text ''A-Smith'')] [(Text ''101'', Text ''T1'')] r]\<rparr>,
                         example_groups))"
  using assms(2) by (simp add: load_sheet row_read [OF assms(1)] clean_visits_sheet)

lemma blank_aging_survives: "survives example_groups blank_aging_row"
  by (simp add: blank_aging_row_def survives_def collector_id_of_def collector_of_def
        example_visit_row_def example_strptime example_groups_def astype_str_def string_eval)

lemma blank_aging_cleaned:
  "cleaned [(Text ''101'', Text ''A-Smith'')] [(Text ''101'', Text ''T1'')] blank_aging_row
   = blank_aging_log_row"
  by (simp add: blank_aging_row_def blank_aging_log_row_def cleaned_def collector_id_of_def
        example_visit_row_def example_log_row_def fun_eq_iff example_strptime
        collector_of_def astype_str_def map_dict_def string_eval)

subsection \<open>Removing a row from the visit log\<close>

lemma getitems_rows:
  "getitems \<lparr>columns = names, rows = rs\<rparr> wanted
   = (case find (\<lambda>name. name \<notin> set names) wanted of
        Some name \<Rightarrow> Inl (KeyError name)
      | None \<Rightarrow> Inr \<lparr>columns = wanted, rows = map (restrict_row wanted) rs\<rparr>)"
  by (simp add: getitems_def split: option.splits)

lemma clean_visits_drop_row:
  assumes "''Neg Pos Unit'' \<in> set names"
      and "\<not> survives groups_df r"
    shows "clean_visits groups_df collectors_info \<lparr>columns = names, rows = before @ r # after\<rparr>
         = clean_visits groups_df collectors_info \<lparr>columns = names, rows = before @ after\<rparr>"
  using assms by (simp add: clean_visits_eq)

lemma try_block_after_read:
  "try_block read_excel v g =
     and_then (read_excel g 0) (\<lambda>groups_df.
     and_then (prepare_groups groups_df) (\<lambda>(groups_df, collectors_info).
     and_then (read_excel v 1) (after_read groups_df collectors_info)))"
  by (simp add: try_block_def after_read_def [abs_def] del: One_nat_def)

lemma after_read_drop_row:
  assumes "str_strip (astype_str (rename_row strip names r ''Neg Pos Unit''))
             = Text ''CancelRepossession''"
  shows "after_read groups_df collectors_info \<lparr>columns = names, rows = before @ r # after\<rparr>
       = after_read groups_df collectors_info \<lparr>columns = names, rows = before @ after\<rparr>"
proof -
  let ?f = "\<lambda>r. restrict_row required_cols (rename_row strip names r)"
  have ns: "\<not> survives groups_df (?f r)"
    using assms by (simp add: survives_def restrict_row_def required_cols_def)
  have npu: "''Neg Pos Unit'' \<in> set required_cols" by (simp add: required_cols_def)
  have "clean_visits groups_df collectors_info
          \<lparr>columns = required_cols, rows = map ?f before @ ?f r # map ?f after\<rparr>
        = clean_visits groups_df collectors_info
          \<lparr>columns = required_cols, rows = map ?f before @ map ?f after\<rparr>"
    by (rule clean_visits_drop_row [OF npu ns])
  then show ?thesis
    by (simp add: after_read_def rename_columns_def getitems_rows Let_def comp_def and_then_def
          split: option.splits)
qed

lemma cancelled_unit:
  "str_strip (astype_str (rename_row strip required_cols cancelled_row ''Neg Pos Unit''))
     = Text ''CancelRepossession''"
  unfolding rename_strip_required
  by (simp add: restrict_row_def required_cols_def cancelled_row_def astype_str_def strip_def
        isspace_def)

lemma lowercase_unit_survives: "survives example_groups lowercase_unit_row"
  by (simp add: lowercase_unit_row_def survives_def collector_id_of_def collector_of_def
        example_visit_row_def example_strptime example_groups_def astype_str_def string_eval)

lemma lowercase_unit_cleaned:
  "cleaned [(Text ''101'', Text ''A-Smith'')] [(Text ''101'', Text ''T1'')] lowercase_unit_row
   = lowercase_unit_log_row"
  by (simp add: lowercase_unit_row_def lowercase_unit_log_row_def cleaned_def collector_id_of_def
        example_visit_row_def example_log_row_def fun_eq_iff example_strptime
        collector_of_def astype_str_def map_dict_def string_eval)

lemma rows_derive_collector_id:
  "rows (derive_collector_id df)
   = map (\<lambda>r. r(''Collector'' := collector_of r, ''Collector ID'' := collector_id_of r)) (rows df)"
  by (simp add: derive_collector_id_def Let_def rows_assign collector_of_def collector_id_of_def
        comp_def)

lemma rows_anti_join:
  "rows (anti_join groups_df df)
   = filter (\<lambda>r. r ''Collector ID'' \<in> (\<lambda>g. g ''ID'') ` set (rows groups_df)) (rows df)"
  by (simp add: anti_join_def Let_def rows_select_rows set_unique)

subsection \<open>Exceptions in the loader\<close>

lemma load_resolved:
  assumes "get_gdrive_download_url visit_url = Inr (shown1, Some v)"
      and "get_gdrive_download_url group_url = Inr (shown2, Some g)"
    shows "load_data_from_gdrive read_excel visit_url group_url
         = (case try_block read_excel v g of
              Inl e \<Rightarrow> Inr ([Load_error e], None)
            | Inr (shown3, result) \<Rightarrow> Inr (shown3, result))"
  using get_gdrive_download_url_cases [of visit_url] get_gdrive_download_url_cases [of group_url]
    assms
  by (auto simp: load_data_from_gdrive_def and_then_def split: sum.splits)

lemma prepare_groups_no_id:
  assumes "''ID'' \<notin> strip ` set (columns groups_raw)"
  shows "prepare_groups groups_raw = Inl (KeyError ''ID'')"
  using assms by (simp add: prepare_groups_def Let_def getitem_def rename_columns_def and_then_def)

lemma try_block_roster_fetch: "read_excel g 0 = Inl e \<Longrightarrow> try_block read_excel v g = Inl e"
  by (simp add: try_block_def and_then_def)

lemma try_block_roster_parse:
  "read_excel g 0 = Inr groups_raw \<Longrightarrow> prepare_groups groups_raw = Inl e
     \<Longrightarrow> try_block read_excel v g = Inl e"
  by (simp add: try_block_def and_then_def)

lemma try_block_visit_fetch:
  "read_excel g 0 = Inr groups_raw \<Longrightarrow> prepare_groups groups_raw = Inr (groups_df, collectors_info)
     \<Longrightarrow> read_excel v 1 = Inl e \<Longrightarrow> try_block read_excel v g = Inl e"
  by (simp add: try_block_after_read and_then_def del: One_nat_def)

lemma try_block_shown:
  "try_block read_excel v g = Inr (shown, result) \<Longrightarrow> shown \<noteq> [] \<Longrightarrow> result = None"
  by (auto simp: try_block_def and_then_def Let_def split: sum.splits if_splits)

subsection \<open>Double precision division\<close>

lemmas float_eval =
  float64_div_def float64_of_nat_def scaled_def pow2_def round_div_def bit_length.simps Let_def

lemma bit_length_bounds:
  "0 < n \<Longrightarrow> 2 ^ (bit_length n - 1) \<le> n \<and> n < 2 ^ bit_length n"
proof (induction n rule: bit_length.induct)
  case (1 n)
  show ?case
  proof (cases "n div 2 = 0")
    case True
    with 1(2) have "n = 1" by (cases n) auto
    then show ?thesis by (simp add: bit_length.simps)
  next
    case False
    then have pos: "0 < n div 2" by simp
    define k where "k = bit_length (n div 2)"
    from 1(1) [OF _ pos] 1(2)
    have ih: "2 ^ (k - 1) \<le> n div 2" "n div 2 < 2 ^ k"
      by (auto simp: k_def)
    have bl: "bit_length n = Suc k"
      using 1(2) unfolding k_def by (subst bit_length.simps) simp
    have "0 < k"
      using pos unfolding k_def by (subst bit_length.simps) simp
    then have p: "(2 :: nat) ^ k = 2 * 2 ^ (k - 1)"
      by (cases k) auto
    have d: "2 * (n div 2) \<le> n" "n < 2 * (n div 2) + 2" by presburger+
    have "(2 :: nat) ^ k \<le> n" using p ih(1) d(1) by linarith
    moreover have "n < 2 * 2 ^ k" using ih(2) d(2) by linarith
    ultimately show ?thesis by (simp add: bl)
  qed
qed

lemma pow2_power_int: "pow2 e = power_int 2 e"
  by (simp add: pow2_def power_int_def inverse_eq_divide power_one_over)

lemma pow2_pos: "0 < pow2 e"
  by (simp add: pow2_power_int)

lemma round_div_error:
  assumes "0 < b"
  shows "\<bar>of_nat (round_div a b) - (of_nat a / of_nat b :: rat)\<bar> \<le> 1 / 2"
proof -
  define m where "m = a div b"
  define r where "r = a mod b"
  define x :: rat where "x = of_nat r / of_nat b"
  have a: "a = m * b + r" by (simp add: m_def r_def)
  have q: "(of_nat a / of_nat b :: rat) = of_nat m + x"
    using assms by (simp add: a x_def field_simps)
  have rb: "r < b" using assms by (simp add: r_def)
  have lo: "x < 1 / 2" if "2 * r < b"
  proof -
    have "(of_nat (2 * r) :: rat) < of_nat b" using that by (simp only: of_nat_less_iff)
    then show ?thesis using assms by (simp add: x_def field_simps)
  qed
  have hi: "1 / 2 < x" if "b < 2 * r"
  proof -
    have "(of_nat b :: rat) < of_nat (2 * r)" using that by (simp only: of_nat_less_iff)
    then show ?thesis using assms by (simp add: x_def field_simps)
  qed
  have mid: "x = 1 / 2" if "2 * r = b"
  proof -
    have "(of_nat b :: rat) = of_nat (2 * r)" using that by simp
    then show ?thesis using assms by (simp add: x_def field_simps)
  qed
  have le1: "x < 1"
    using rb assms by (simp add: x_def)
  have ge0: "0 \<le> x" by (simp add: x_def)
  consider "2 * r < b" | "b < 2 * r" | "2 * r = b" by linarith
  then show ?thesis
  proof cases
    case 1
    then have "round_div a b = m" by (simp add: round_div_def m_def r_def)
    then have "of_nat (round_div a b) - (of_nat a / of_nat b :: rat) = - x"
      by (simp add: q)
    then show ?thesis using lo [OF 1] ge0 by simp
  next
    case 2
    then have "round_div a b = m + 1" by (simp add: round_div_def m_def r_def)
    then have "of_nat (round_div a b) - (of_nat a / of_nat b :: rat) = 1 - x"
      by (simp add: q)
    then show ?thesis using hi [OF 2] le1 by simp
  next
    case 3
    then have "round_div a b = m \<or> round_div a b = m + 1"
      by (simp add: round_div_def m_def r_def Let_def)
    then have "of_nat (round_div a b) - (of_nat a / of_nat b :: rat) = - x
      \<or> of_nat (round_div a b) - (of_nat a / of_nat b :: rat) = 1 - x"
      by (auto simp: q)
    then show ?thesis unfolding mid [OF 3] by auto
  qed
qed

lemma scaled_value:
  assumes "0 < b"
  shows "0 < snd (scaled a b e)"
    and "(of_nat (fst (scaled a b e)) / of_nat (snd (scaled a b e)) :: rat)
           = (of_nat a / of_nat b) / pow2 e"
  using assms by (simp_all add: scaled_def pow2_def)

lemma float64_div_error:
  assumes "0 < a" and "0 < b"
  shows "\<bar>float64_div a b - of_nat a / of_nat b\<bar> \<le> (of_nat a / of_nat b) / 2 ^ 53"
proof -
  define q :: rat where "q = of_nat a / of_nat b"
  define e0 where "e0 = int (bit_length a) - int (bit_length b) - 53"
  define e where "e = (if fst (scaled a b e0) < 2 ^ 53 * snd (scaled a b e0) then e0 else e0 + 1)"
  define m where "m = round_div (fst (scaled a b e)) (snd (scaled a b e))"
  have f: "float64_div a b = of_nat m * pow2 e"
    using assms by (simp add: float64_div_def Let_def m_def e_def e0_def)
  have qpos: "0 < q" using assms by (simp add: q_def)
  have sv: "(of_nat (fst (scaled a b x)) / of_nat (snd (scaled a b x)) :: rat) = q / pow2 x" for x
    unfolding q_def by (rule scaled_value(2) [OF assms(2)])
  have sp: "0 < snd (scaled a b x)" for x by (rule scaled_value(1) [OF assms(2)])
  from bit_length_bounds [OF assms(1)] bit_length_bounds [OF assms(2)]
  have ba: "2 ^ (bit_length a - 1) \<le> a" and bb: "b < 2 ^ bit_length b" by auto
  have la: "0 < bit_length a" using assms(1) by (subst bit_length.simps) simp
  define A :: rat where "A = 2 ^ (bit_length a - 1)"
  define B :: rat where "B = 2 ^ bit_length b"
  have "(of_nat (2 ^ (bit_length a - 1)) :: rat) \<le> of_nat a"
    using ba by (simp only: of_nat_le_iff)
  then have Aa: "A \<le> of_nat a" by (simp add: A_def)
  have "(of_nat b :: rat) < of_nat (2 ^ bit_length b)"
    using bb by (simp only: of_nat_less_iff)
  then have bB: "of_nat b < B" by (simp add: B_def)
  have Apos: "0 < A" by (simp add: A_def)
  have Bpos: "0 < B" by (simp add: B_def)
  have bpos: "(0 :: rat) < of_nat b" using assms(2) by simp
  have "A * of_nat b < A * B" using bB Apos by (rule mult_strict_left_mono)
  also have "A * B \<le> of_nat a * B" using Aa Bpos by (simp add: mult_right_mono)
  finally have "A / B < of_nat a / of_nat b"
    using Bpos bpos by (simp add: field_simps)
  then have AB: "A / B < q" by (simp add: q_def)
  have "A / B = 2 ^ 52 * pow2 e0"
  proof -
    have "A / B = power_int 2 (int (bit_length a - 1)) / power_int 2 (int (bit_length b))"
      by (simp add: A_def B_def)
    also have "\<dots> = power_int 2 (int (bit_length a - 1) - int (bit_length b))"
      by (simp add: power_int_diff)
    also have "int (bit_length a - 1) - int (bit_length b) = 52 + e0"
      using la by (simp add: e0_def)
    also have "power_int (2 :: rat) (52 + e0) = 2 ^ 52 * pow2 e0"
      by (simp add: power_int_add pow2_power_int)
    finally show ?thesis .
  qed
  with AB have "2 ^ 52 * pow2 e0 < q" by simp
  then have low0: "2 ^ 52 < q / pow2 e0"
    using pow2_pos [of e0] by (simp add: pos_less_divide_eq)
  have low: "2 ^ 52 \<le> q / pow2 e"
  proof (cases "fst (scaled a b e0) < 2 ^ 53 * snd (scaled a b e0)")
    case True
    then show ?thesis using low0 by (simp add: e_def)
  next
    case False
    then have "2 ^ 53 * snd (scaled a b e0) \<le> fst (scaled a b e0)" by simp
    then have "(of_nat (2 ^ 53 * snd (scaled a b e0)) :: rat) \<le> of_nat (fst (scaled a b e0))"
      by (simp only: of_nat_le_iff)
    then have "(2 :: rat) ^ 53 * of_nat (snd (scaled a b e0)) \<le> of_nat (fst (scaled a b e0))"
      by simp
    then have "(2 :: rat) ^ 53 \<le> of_nat (fst (scaled a b e0)) / of_nat (snd (scaled a b e0))"
      using sp [of e0] by (simp add: pos_le_divide_eq)
    then have "2 ^ 53 \<le> q / pow2 e0" by (simp only: sv)
    then have "2 ^ 53 * pow2 e0 \<le> q"
      using pow2_pos [of e0] by (simp add: pos_le_divide_eq)
    moreover have "pow2 (e0 + 1) = 2 * pow2 e0"
      by (simp add: pow2_power_int power_int_add)
    ultimately have "2 ^ 52 * pow2 (e0 + 1) \<le> q" by simp
    then have "2 ^ 52 \<le> q / pow2 (e0 + 1)"
      using pow2_pos [of "e0 + 1"] by (simp add: pos_le_divide_eq)
    then show ?thesis using False by (simp add: e_def)
  qed
  define p where "p = pow2 e"
  have ppos: "0 < p" by (simp add: p_def pow2_pos)
  have "\<bar>of_nat m - q / p\<bar> \<le> 1 / 2"
    using round_div_error [of "snd (scaled a b e)" "fst (scaled a b e)", OF sp] by (simp add: m_def sv p_def)
  also have "1 / 2 \<le> (q / p) / 2 ^ 53" using low by (simp add: p_def)
  finally have "\<bar>of_nat m - q / p\<bar> * p \<le> (q / p) / 2 ^ 53 * p"
    using ppos by (simp only: mult_le_cancel_right_pos)
  moreover have "\<bar>of_nat m - q / p\<bar> * p = \<bar>(of_nat m - q / p) * p\<bar>"
    using ppos by (simp add: abs_mult)
  moreover have "(of_nat m - q / p) * p = of_nat m * p - q"
    using ppos by (simp add: left_diff_distrib)
  moreover have "(q / p) / 2 ^ 53 * p = q / 2 ^ 53"
    using ppos by simp
  ultimately have "\<bar>of_nat m * p - q\<bar> \<le> q / 2 ^ 53" by simp
  then show ?thesis by (simp add: f q_def p_def)
qed

subsection \<open>Aggregation\<close>

lemma value_counts_set:
  "set (value_counts xs)
   = (\<lambda>v. (v, length (filter (\<lambda>x. x = v) xs))) ` (set xs - {NaN})"
proof -
  have "count_list (filter (\<lambda>v. v \<noteq> NaN) xs) v = length (filter (\<lambda>x. x = v) xs)"
    if "v \<noteq> NaN" for v
  proof -
    have "filter ((=) v) (filter (\<lambda>v. v \<noteq> NaN) xs) = filter (\<lambda>x. x = v) xs"
      using that by (induction xs) auto
    then show ?thesis by (simp add: count_list_eq_length_filter)
  qed
  then show ?thesis
    by (auto simp: value_counts_def Let_def set_unique)
qed

lemma collect_Inr: "collect xs = Inr ys \<Longrightarrow> xs = map Inr ys"
proof (induction xs arbitrary: ys)
  case Nil
  then show ?case by simp
next
  case (Cons x xs)
  then show ?case by (auto simp: and_then_def split: sum.splits)
qed

lemma collect_map_Inr: "collect (map Inr ys) = Inr ys"
  by (induction ys) (auto simp: and_then_def)

lemma with_AgingSort_Inr:
  assumes "with_AgingSort counts = Inr t"
  shows "t = map (\<lambda>(a, n). (a, n, aging_number a)) counts"
proof -
  from assms have "map (\<lambda>(a, n). and_then (AgingSort a) (\<lambda>k. Inr (a, n, k))) counts = map Inr t"
    unfolding with_AgingSort_def by (rule collect_Inr)
  then show ?thesis
  proof (induction counts arbitrary: t)
    case Nil
    then show ?case by simp
  next
    case (Cons c counts)
    then show ?case
      by (cases t; cases c) (auto simp: AgingSort_def and_then_def split: if_splits)
  qed
qed

lemma with_AgingSort_fits:
  assumes "list_all (\<lambda>(a, n). aging_number a < 2 ^ 63) counts"
  shows "with_AgingSort counts = Inr (map (\<lambda>(a, n). (a, n, aging_number a)) counts)"
  using assms by (induction counts) (auto simp: with_AgingSort_def AgingSort_def and_then_def)

lemma sorted_sort_values: "sorted (map (\<lambda>(a, n, k). k) (sort_values_AgingSort t))"
  unfolding sort_values_AgingSort_def by (rule sorted_sort_key)

lemma set_sort_values: "set (sort_values_AgingSort t) = set t"
  by (simp add: sort_values_AgingSort_def)

lemma aging_number_nonneg: "0 \<le> aging_number a"
  by (cases a) (auto simp: aging_number_def)

lemma aging_number_no_digits:
  assumes "list_all (\<lambda>c. \<not> isdigit c) s"
  shows "aging_number (Text s) = 0"
proof -
  from assms have h: "dropWhile (\<lambda>c. \<not> isdigit c) s = []" by (simp add: list_all_iff)
  have "first_digits s = []" unfolding first_digits_def h by simp
  then show ?thesis by (simp add: aging_number_def)
qed

lemma tab2_table:
  assumes "tab2_aging_counts analysis_data = Inr (Chart_data t)"
  shows "\<exists>counts. t = sort_values_AgingSort (map (\<lambda>(a, n). (a, n, aging_number a)) counts)
           \<and> counts = value_counts (map (\<lambda>r. r ''Aging'') (rows analysis_data))"
  using assms
  by (auto simp: tab2_aging_counts_def and_then_def getitem_def
      split: if_splits sum.splits dest: with_AgingSort_Inr)

lemma tab3_table:
  assumes "tab3_aging_counts_comp comp_data comparison_collectors = Inr (Chart_data t)"
  shows "comparison_collectors \<noteq> []
         \<and> t = sort_values_AgingSort (map (\<lambda>(a, n). (a, n, aging_number a))
                 (map (\<lambda>(a, n). (a, float64_div (float64_of_nat n)
                                     (float64_of_nat (length comparison_collectors))))
                    (value_counts (map (\<lambda>r. r ''Aging'')
                       (filter (\<lambda>r. r ''Collector Name'' \<in> set comparison_collectors)
                          (rows comp_data))))))"
  using assms
  by (auto simp: tab3_aging_counts_comp_def and_then_def getitem_def Let_def rows_select_rows
      split: if_splits sum.splits dest: with_AgingSort_Inr)

lemma tab3_rows:
  assumes "tab3_aging_counts_comp comp_data comparison_collectors = Inr (Chart_data t)"
  shows "set t =
           (\<lambda>a. (a, float64_div
                      (float64_of_nat (length (filter
                         (\<lambda>r. r ''Collector Name'' \<in> set comparison_collectors \<and> r ''Aging'' = a)
                         (rows comp_data))))
                      (float64_of_nat (length comparison_collectors)),
                    aging_number a))
             ` {r ''Aging'' | r. r \<in> set (rows comp_data)
                  \<and> r ''Collector Name'' \<in> set comparison_collectors \<and> r ''Aging'' \<noteq> NaN}"
proof -
  let ?data = "filter (\<lambda>r. r ''Collector Name'' \<in> set comparison_collectors) (rows comp_data)"
  from tab3_table [OF assms]
  have t: "set t = (\<lambda>p. (fst p, float64_div (float64_of_nat (snd p))
                                   (float64_of_nat (length comparison_collectors)),
                            aging_number (fst p)))
                     ` set (value_counts (map (\<lambda>r. r ''Aging'') ?data))"
    by (simp add: set_sort_values image_image case_prod_beta)
  have c: "length (filter (\<lambda>x. x = v) (map (\<lambda>r. r ''Aging'') ?data))
        = length (filter (\<lambda>r. r ''Collector Name'' \<in> set comparison_collectors
                                          \<and> r ''Aging'' = v) (rows comp_data))" for v
    by (simp add: filter_map comp_def conj_commute)
  show ?thesis
    unfolding t value_counts_set c by (auto simp: image_iff)
qed

lemma tab3_total:
  assumes "comparison_collectors \<noteq> []"
    and "''Collector Name'' \<in> set (columns comp_data)"
    and "''Aging'' \<in> set (columns comp_data)"
    and "filter (\<lambda>r. r ''Collector Name'' \<in> set comparison_collectors) (rows comp_data) \<noteq> []"
    and "list_all (\<lambda>r. aging_number (r ''Aging'') < 2 ^ 63)
           (filter (\<lambda>r. r ''Collector Name'' \<in> set comparison_collectors) (rows comp_data))"
  shows "\<exists>t. tab3_aging_counts_comp comp_data comparison_collectors = Inr (Chart_data t)"
proof -
  let ?data = "filter (\<lambda>r. r ''Collector Name'' \<in> set comparison_collectors) (rows comp_data)"
  have "list_all (\<lambda>(a, n). aging_number a < 2 ^ 63)
          (map (\<lambda>(a, n). (a, float64_div (float64_of_nat n)
                               (float64_of_nat (length comparison_collectors))))
             (value_counts (map (\<lambda>r. r ''Aging'') ?data)))"
    using assms(5) by (auto simp: list_all_iff value_counts_set)
  from with_AgingSort_fits [OF this] assms(1-4) show ?thesis
    by (auto simp: tab3_aging_counts_comp_def getitem_def and_then_def Let_def empty_frame_def
        rows_select_rows columns_select_rows)
qed

lemma float64_of_nat_small: "n < 2 ^ 53 \<Longrightarrow> float64_of_nat n = n"
  by (simp add: float64_of_nat_def)

lemmas aggregate_eval =
  value_counts_def unique_def with_AgingSort_def AgingSort_def aging_number_def first_digits_def
  isdigit_def int_of_digits_def sort_values_AgingSort_def and_then_def getitem_def
  select_rows_def empty_frame_def Let_def

lemma example_tab2:
  "tab2_aging_counts example_comp
   = Inr (Chart_data [(Text ''X'', 1, 0), (Text ''M2'', 1, 2), (Text ''M3'', 2, 3),
                      (Text ''M10'', 1, 10)])"
  by (simp add: tab2_aging_counts_def example_comp_def aggregate_eval)

lemma example_tab3:
  "tab3_aging_counts_comp example_comp [Text ''A'', Text ''B'']
   = Inr (Chart_data [(Text ''X'', 1 / 2, 0), (Text ''M2'', 1 / 2, 2), (Text ''M3'', 1, 3)])"
  by (simp add: tab3_aging_counts_comp_def example_comp_def aggregate_eval float_eval
      numeral_2_eq_2 [symmetric] numeral_3_eq_3 [symmetric])

lemma example_tab3_thirds:
  "tab3_aging_counts_comp example_comp [Text ''A'', Text ''B'', Text ''D'']
   = Inr (Chart_data [(Text ''X'', 6004799503160661 / 18014398509481984, 0),
                      (Text ''M2'', 6004799503160661 / 18014398509481984, 2),
                      (Text ''M3'', 6004799503160661 / 9007199254740992, 3)])"
  by (simp add: tab3_aging_counts_comp_def example_comp_def aggregate_eval float_eval
      numeral_2_eq_2 [symmetric] numeral_3_eq_3 [symmetric])

section \<open>Properties\<close>

text \<open>
  Claim C8. A sharing link that contains neither \<open>spreadsheets/d/\<close> nor \<open>file/d/\<close> is
  answered with the explicit unresolved result \<open>None\<close> together with the link format
  warning for the user; no address is made up and no exception is raised.
\<close>

theorem unrecognized_link_unresolved:
  assumes "\<not> contains ''spreadsheets/d/'' share_link"
      and "\<not> contains ''file/d/'' share_link"
    shows "get_gdrive_download_url share_link = Inr ([Link_format_warning share_link], None)"
  using assms by (simp add: get_gdrive_download_url_def)

theorem unrecognized_link_unresolved_witness:
  "\<not> contains ''spreadsheets/d/'' ''https://example.com/d/x''
   \<and> \<not> contains ''file/d/'' ''https://example.com/d/x''
   \<and> get_gdrive_download_url ''https://example.com/d/x''
       = Inr ([Link_format_warning ''https://example.com/d/x''], None)"
proof -
  have a: "\<not> contains ''spreadsheets/d/'' ''https://example.com/d/x''" by simp
  have b: "\<not> contains ''file/d/'' ''https://example.com/d/x''" by simp
  show ?thesis using a b unrecognized_link_unresolved [OF a b] by blast
qed

subsection \<open>The normalized activity table\<close>

text \<open>
  Claim C1, as amended. Every row of the activity table that \<open>load_data_from_gdrive\<close>
  returns has a \<open>Collector ID\<close> that is an \<open>ID\<close> of the returned roster, a \<open>Create Time\<close>
  that is a parsed timestamp and not a null, and an \<open>Aging\<close> that is a text, trimmed and
  without lower-case letters: the trimmed upper-case print of a raw cell that was not null.
  That text is empty only when the raw cell was a text of nothing but whitespace: null cells
  are dropped, a whitespace-only text is carried through as the empty text.
\<close>

theorem normalized_rows_invariant:
  assumes "load_data_from_gdrive read_excel visit_url group_url
             = Inr (shown, Some (visit_logs, groups_info))"
      and "r \<in> set (rows visit_logs)"
    shows "r ''Collector ID'' \<in> (\<lambda>g. g ''ID'') ` set (rows groups_info)
         \<and> (\<exists>t. r ''Create Time'' = Stamp t)
         \<and> (\<exists>a. r ''Aging'' = Text a \<and> strip a = a \<and> upper a = a)
         \<and> (\<exists>v visits_raw df raw.
               get_gdrive_download_url visit_url = Inr ([], Some v)
               \<and> read_excel v 1 = Inr visits_raw
               \<and> getitems (rename_columns strip visits_raw) required_cols = Inr df
               \<and> raw \<in> set (rows df)
               \<and> raw ''Aging'' \<noteq> NaN
               \<and> r ''Aging'' = Text (upper (strip (str_of (raw ''Aging''))))
               \<and> (r ''Aging'' = Text [] \<longrightarrow> (\<exists>w. raw ''Aging'' = Text w \<and> list_all isspace w)))"
proof -
  from load_success [OF assms(1)]
  obtain v collectors_info visits_raw df
    where v: "get_gdrive_download_url visit_url = Inr ([], Some v)"
      and rd: "read_excel v 1 = Inr visits_raw"
      and df: "getitems (rename_columns strip visits_raw) required_cols = Inr df"
      and cv: "clean_visits groups_info collectors_info df = Inr visit_logs"
    by blast
  have "''Neg Pos Unit'' \<in> set (columns df)"
    using getitems_columns [OF df] by (simp add: required_cols_def)
  from clean_visits_rows [OF this cv] obtain group_map
    where "rows visit_logs = map (cleaned collectors_info group_map) (filter (survives groups_info) (rows df))"
    by blast
  with assms(2) obtain raw
    where raw: "raw \<in> set (rows df)" "survives groups_info raw"
      and r: "r = cleaned collectors_info group_map raw"
    by auto
  let ?a = "upper (strip (str_of (raw ''Aging'')))"
  have id: "r ''Collector ID'' \<in> (\<lambda>g. g ''ID'') ` set (rows groups_info)"
    using raw(2) by (simp add: r cleaned_def survives_def)
  have ct: "\<exists>t. r ''Create Time'' = Stamp t"
    using raw(2) to_datetime_cases [of "raw ''Create Time''"] by (auto simp: r cleaned_def survives_def)
  have ag: "r ''Aging'' = Text ?a"
    by (simp add: r cleaned_def astype_str_def)
  have tr: "strip ?a = ?a" by (simp add: strip_upper strip_idem)
  have up: "upper ?a = ?a" by (simp add: upper_idem)
  have nn: "raw ''Aging'' \<noteq> NaN" using raw(2) by (simp add: survives_def)
  have blank: "\<exists>w. raw ''Aging'' = Text w \<and> list_all isspace w" if "r ''Aging'' = Text []"
  proof -
    from that ag have "strip (str_of (raw ''Aging'')) = []" by (simp add: upper_Nil_iff)
    then have "list_all isspace (str_of (raw ''Aging''))" by (simp add: strip_empty_iff)
    with nn show ?thesis by (rule str_of_blank)
  qed
  show ?thesis
    using id ct ag tr up v rd df raw(1) nn blank by blast
qed

theorem normalized_rows_invariant_witness:
  "load_data_from_gdrive (example_reader example_groups (sheet [example_visit_row]))
     visit_link group_link = Inr ([], Some (example_logs, example_groups))
   \<and> example_log_row \<in> set (rows example_logs)
   \<and> example_log_row ''Collector ID'' \<in> (\<lambda>g. g ''ID'') ` set (rows example_groups)
   \<and> (\<exists>t. example_log_row ''Create Time'' = Stamp t)
   \<and> (\<exists>a. example_log_row ''Aging'' = Text a \<and> strip a = a \<and> upper a = a)"
proof -
  have m: "example_log_row \<in> set (rows example_logs)" by (simp add: example_logs_def)
  from normalized_rows_invariant [OF example_load m] example_load m show ?thesis by blast
qed

text \<open>
  The claim as first stated also promised a non-empty \<open>Aging\<close>. A visit row whose \<open>Aging\<close>
  cell holds a single space is not null, is kept, and arrives with the empty text.
\<close>

theorem blank_aging_carried_through:
  "load_data_from_gdrive (example_reader example_groups (sheet [blank_aging_row]))
     visit_link group_link
   = Inr ([], Some (example_logs\<lparr>rows := [blank_aging_log_row]\<rparr>, example_groups))
   \<and> blank_aging_row ''Aging'' = Text '' ''
   \<and> blank_aging_log_row ''Aging'' = Text ''''"
proof -
  have "name \<notin> set required_cols \<Longrightarrow> blank_aging_row name = NaN" for name
    by (auto simp: blank_aging_row_def example_visit_row_def required_cols_def)
  from load_one_row [OF this blank_aging_survives]
  have "load_data_from_gdrive (example_reader example_groups (sheet [blank_aging_row]))
          visit_link group_link
        = Inr ([], Some (example_logs\<lparr>rows := [blank_aging_log_row]\<rparr>, example_groups))"
    by (simp add: blank_aging_cleaned example_logs_def)
  moreover have "blank_aging_row ''Aging'' = Text '' ''"
    by (simp add: blank_aging_row_def)
  moreover have "blank_aging_log_row ''Aging'' = Text []"
    by (simp add: blank_aging_log_row_def)
  ultimately show ?thesis by simp
qed

text \<open>
  Claim C3. For the roster with the one agent 101, A-Smith of team T1 and the one visit row
  of the worked example, the loader returns exactly one row, with \<open>Collector ID\<close> 101,
  \<open>Aging\<close> M3, \<open>Date\<close> 2024-06-01 and \<open>Group\<close> T1.
\<close>

theorem worked_example:
  "load_data_from_gdrive (example_reader example_groups (sheet [example_visit_row]))
     visit_link group_link = Inr ([], Some (example_logs, example_groups))
   \<and> rows example_groups
       = [(\<lambda>_. NaN)(''ID'' := Text ''101'', ''Agent Name'' := Text ''A-Smith'', ''Group'' := Text ''T1'')]
   \<and> example_visit_row ''Collector'' = Text ''101-A-Smith''
   \<and> example_visit_row ''Create Time'' = Text ''01/06/2024 09:00:00''
   \<and> example_visit_row ''Neg Pos Unit'' = Text ''Visit''
   \<and> example_visit_row ''Aging'' = Text ''m3''
   \<and> example_visit_row ''Contact Summary'' = Text ''ok''
   \<and> example_visit_row ''Customer Name'' = Text ''Cust1''
   \<and> rows example_logs = [example_log_row]
   \<and> example_log_row ''Collector ID'' = Text ''101''
   \<and> example_log_row ''Aging'' = Text ''M3''
   \<and> example_log_row ''Date'' = Day \<lparr>year = 2024, month = 6, day = 1\<rparr>
   \<and> example_log_row ''Group'' = Text ''T1''"
  using example_load
  by (simp add: example_groups_def example_visit_row_def example_logs_def example_log_row_def)

text \<open>
  Claim C2, as amended. A visit row whose \<open>Neg Pos Unit\<close> cell, printed as text and
  trimmed, is exactly \<open>CancelRepossession\<close> (surrounding whitespace is ignored, letter case
  is not) is excluded: loading the visit log gives what loading it without that row gives.
  The cell of the row is read under the column whose trimmed name is \<open>Neg Pos Unit\<close>.
\<close>

theorem cancelled_row_excluded:
  assumes "get_gdrive_download_url visit_url = Inr (shown, Some v)"
      and "read_excel v 1 = Inr \<lparr>columns = names, rows = before @ r # after\<rparr>"
      and "str_strip (astype_str (rename_row strip names r ''Neg Pos Unit''))
             = Text ''CancelRepossession''"
    shows "load_data_from_gdrive read_excel visit_url group_url
         = load_data_from_gdrive
             (\<lambda>url header. if url = v \<and> header = 1
                            then Inr \<lparr>columns = names, rows = before @ after\<rparr>
                            else read_excel url header) visit_url group_url"
proof -
  let ?rd = "\<lambda>url header. if url = v \<and> header = 1
                           then Inr \<lparr>columns = names, rows = before @ after\<rparr>
                           else read_excel url header"
  have "try_block read_excel v g = try_block ?rd v g" for g
  proof -
    have a: "?rd g 0 = read_excel g 0" by simp
    have b: "?rd v 1 = Inr \<lparr>columns = names, rows = before @ after\<rparr>" by simp
    show ?thesis
      unfolding try_block_after_read a b assms(2)
      by (simp add: and_then_def after_read_drop_row [OF assms(3)] del: One_nat_def
            split: sum.splits)
  qed
  then show ?thesis
    by (simp add: load_data_from_gdrive_def assms(1) and_then_def del: One_nat_def
          split: sum.splits option.splits prod.splits)
qed

theorem cancelled_row_excluded_witness:
  "get_gdrive_download_url visit_link
     = Inr ([], Some ''https://drive.google.com/uc?export=download&id=V'')
   \<and> example_reader example_groups (sheet [example_visit_row, cancelled_row])
         ''https://drive.google.com/uc?export=download&id=V'' 1
       = Inr \<lparr>columns = required_cols, rows = [example_visit_row] @ cancelled_row # []\<rparr>
   \<and> str_strip (astype_str (rename_row strip required_cols cancelled_row ''Neg Pos Unit''))
       = Text ''CancelRepossession''
   \<and> load_data_from_gdrive (example_reader example_groups (sheet [example_visit_row, cancelled_row]))
         visit_link group_link
       = Inr ([], Some (example_logs, example_groups))"
proof -
  let ?v = "''https://drive.google.com/uc?export=download&id=V''"
  let ?rd = "example_reader example_groups (sheet [example_visit_row, cancelled_row])"
  have h2: "?rd ?v 1 = Inr \<lparr>columns = required_cols, rows = [example_visit_row] @ cancelled_row # []\<rparr>"
    by (simp add: example_reader_def sheet_def)
  have same: "(\<lambda>url header. if url = ?v \<and> header = 1
                 then Inr \<lparr>columns = required_cols, rows = [example_visit_row] @ []\<rparr>
                 else ?rd url header)
              = example_reader example_groups (sheet [example_visit_row])"
    by (auto simp: example_reader_def sheet_def fun_eq_iff)
  from cancelled_row_excluded [where read_excel = "?rd" and v = "?v" and names = required_cols
      and before = "[example_visit_row]" and r = cancelled_row and after = "[]"
      and visit_url = visit_link and group_url = group_link and shown = "[]",
      OF example_urls(1) h2 cancelled_unit]
  have "load_data_from_gdrive ?rd visit_link group_link
        = Inr ([], Some (example_logs, example_groups))"
    unfolding same by (simp add: example_load)
  with example_urls(1) h2 cancelled_unit show ?thesis by simp
qed

text \<open>
  The claim as first stated excluded the row under any letter case. The comparison of line 73
  is case sensitive: a row whose unit is \<open>cancelrepossession\<close> is kept.
\<close>

theorem lowercase_sentinel_retained:
  "load_data_from_gdrive (example_reader example_groups (sheet [lowercase_unit_row]))
     visit_link group_link
   = Inr ([], Some (example_logs\<lparr>rows := [lowercase_unit_log_row]\<rparr>, example_groups))
   \<and> lowercase_unit_row ''Neg Pos Unit'' = Text ''cancelrepossession''
   \<and> lowercase_unit_log_row ''Neg Pos Unit'' = Text ''cancelrepossession''"
proof -
  have "name \<notin> set required_cols \<Longrightarrow> lowercase_unit_row name = NaN" for name
    by (auto simp: lowercase_unit_row_def example_visit_row_def required_cols_def)
  from load_one_row [OF this lowercase_unit_survives]
  have "load_data_from_gdrive (example_reader example_groups (sheet [lowercase_unit_row]))
          visit_link group_link
        = Inr ([], Some (example_logs\<lparr>rows := [lowercase_unit_log_row]\<rparr>, example_groups))"
    by (simp add: lowercase_unit_cleaned example_logs_def)
  moreover have "lowercase_unit_row ''Neg Pos Unit'' = Text ''cancelrepossession''"
    by (simp add: lowercase_unit_row_def)
  moreover have "lowercase_unit_log_row ''Neg Pos Unit'' = Text ''cancelrepossession''"
    by (simp add: lowercase_unit_log_row_def)
  ultimately show ?thesis by simp
qed

text \<open>
  Claim C10. When the trimmed \<open>Collector\<close> of a visit row holds no \<open>-\<close>, the derived
  \<open>Collector ID\<close> is the whole trimmed \<open>Collector\<close>, and the anti-join against the roster
  keeps the row exactly when that whole text is an \<open>ID\<close> of the roster.
\<close>

theorem collector_without_separator:
  assumes "CHR ''-'' \<notin> set (strip (str_of (r ''Collector'')))"
  shows "collector_of r = Text (strip (str_of (r ''Collector'')))
       \<and> collector_id_of r = collector_of r
       \<and> rows (anti_join groups_df (derive_collector_id \<lparr>columns = names, rows = [r]\<rparr>))
           = (if collector_of r \<in> (\<lambda>g. g ''ID'') ` set (rows groups_df)
              then [r(''Collector'' := collector_of r, ''Collector ID'' := collector_of r)]
              else [])"
proof -
  let ?s = "strip (str_of (r ''Collector''))"
  have c: "collector_of r = Text ?s" by (simp add: collector_of_def astype_str_def)
  have "split ''-'' ?s = [?s]" using assms by (rule split_no_separator)
  then have i: "collector_id_of r = Text ?s"
    by (simp add: collector_id_of_def c getitem_list_def strip_idem)
  show ?thesis
    by (simp add: rows_anti_join rows_derive_collector_id i c)
qed

theorem collector_without_separator_witness:
  "CHR ''-'' \<notin> set (strip (str_of (whole_id_row ''Collector'')))
   \<and> collector_of whole_id_row = Text ''101''
   \<and> collector_id_of whole_id_row = Text ''101''
   \<and> rows (anti_join example_groups (derive_collector_id (sheet [whole_id_row])))
       = [whole_id_row(''Collector'' := Text ''101'', ''Collector ID'' := Text ''101'')]"
proof -
  have s: "strip (str_of (whole_id_row ''Collector'')) = ''101''"
    by (simp add: whole_id_row_def strip_def isspace_def)
  have h: "CHR ''-'' \<notin> set (strip (str_of (whole_id_row ''Collector'')))"
    unfolding s by simp
  from collector_without_separator [where r = whole_id_row and groups_df = example_groups
      and names = required_cols, OF h] h show ?thesis
    by (simp add: s sheet_def example_groups_def)
qed

subsection \<open>Failures of the loader\<close>

text \<open>
  Claim C5, as amended. With both links resolved: when the roster has no column whose
  trimmed name is \<open>ID\<close>, the \<open>KeyError\<close> of the lookup is caught by the exception handler,
  the load error message carrying it is shown and the pair \<open>(None, None)\<close> is returned; when
  the roster is read and prepared and one of the six required columns is missing from the
  visit log, the missing columns error is shown and the pair \<open>(None, None)\<close> is returned.
  No table is returned in either case.
\<close>

theorem missing_column_fails:
  assumes "get_gdrive_download_url visit_url = Inr (shown1, Some v)"
      and "get_gdrive_download_url group_url = Inr (shown2, Some g)"
    shows "(read_excel g 0 = Inr groups_raw \<and> ''ID'' \<notin> strip ` set (columns groups_raw)
            \<longrightarrow> load_data_from_gdrive read_excel visit_url group_url
                  = Inr ([Load_error (KeyError ''ID'')], None))
         \<and> (read_excel g 0 = Inr groups_raw
            \<and> prepare_groups groups_raw = Inr (groups_df, collectors_info)
            \<and> read_excel v 1 = Inr visits_raw
            \<and> \<not> list_all (\<lambda>col. col \<in> strip ` set (columns visits_raw)) required_cols
            \<longrightarrow> load_data_from_gdrive read_excel visit_url group_url
                  = Inr ([Missing_columns_error], None))"
proof -
  have a: "load_data_from_gdrive read_excel visit_url group_url
             = Inr ([Load_error (KeyError ''ID'')], None)"
    if "read_excel g 0 = Inr groups_raw" "''ID'' \<notin> strip ` set (columns groups_raw)"
    using that(1) prepare_groups_no_id [OF that(2)]
    by (simp add: load_resolved [OF assms] try_block_def and_then_def)
  have b: "load_data_from_gdrive read_excel visit_url group_url = Inr ([Missing_columns_error], None)"
    if "read_excel g 0 = Inr groups_raw" "prepare_groups groups_raw = Inr (groups_df, collectors_info)"
       "read_excel v 1 = Inr visits_raw"
       "\<not> list_all (\<lambda>col. col \<in> strip ` set (columns visits_raw)) required_cols"
    using that
    by (simp add: load_resolved [OF assms] try_block_after_read after_read_def and_then_def
          rename_columns_def Let_def del: One_nat_def)
  from a b show ?thesis by blast
qed

theorem missing_column_fails_witness:
  "get_gdrive_download_url visit_link
     = Inr ([], Some ''https://drive.google.com/uc?export=download&id=V'')
   \<and> get_gdrive_download_url group_link
     = Inr ([], Some ''https://docs.google.com/spreadsheets/d/G/export?format=xlsx'')
   \<and> ''ID'' \<notin> strip ` set (columns no_id_groups)
   \<and> load_data_from_gdrive (example_reader no_id_groups (sheet [example_visit_row]))
         visit_link group_link = Inr ([Load_error (KeyError ''ID'')], None)
   \<and> prepare_groups example_groups = Inr (example_groups, [(Text ''101'', Text ''A-Smith'')])
   \<and> \<not> list_all (\<lambda>col. col \<in> strip ` set (columns no_aging_visits)) required_cols
   \<and> load_data_from_gdrive (example_reader example_groups no_aging_visits)
         visit_link group_link = Inr ([Missing_columns_error], None)"
proof -
  let ?v = "''https://drive.google.com/uc?export=download&id=V''"
  let ?g = "''https://docs.google.com/spreadsheets/d/G/export?format=xlsx''"
  have id: "''ID'' \<notin> strip ` set (columns no_id_groups)"
    by (simp add: no_id_groups_def strip_def isspace_def)
  have r1: "example_reader no_id_groups (sheet [example_visit_row]) ?g 0 = Inr no_id_groups"
    by (simp add: example_reader_def)
  have r2: "example_reader example_groups no_aging_visits ?g 0 = Inr example_groups"
    by (simp add: example_reader_def)
  have r3: "example_reader example_groups no_aging_visits ?v 1 = Inr no_aging_visits"
    by (simp add: example_reader_def)
  have cols: "\<not> list_all (\<lambda>col. col \<in> strip ` set (columns no_aging_visits)) required_cols"
    by (simp add: no_aging_visits_def required_cols_def strip_def isspace_def)
  note t1 = missing_column_fails [where read_excel = "example_reader no_id_groups (sheet [example_visit_row])"
      and groups_raw = no_id_groups, OF example_urls]
  note t2 = missing_column_fails [where read_excel = "example_reader example_groups no_aging_visits"
      and groups_raw = example_groups and groups_df = example_groups
      and collectors_info = "[(Text ''101'', Text ''A-Smith'')]" and visits_raw = no_aging_visits,
      OF example_urls]
  from t1 r1 id
  have a: "load_data_from_gdrive (example_reader no_id_groups (sheet [example_visit_row]))
             visit_link group_link = Inr ([Load_error (KeyError ''ID'')], None)"
    by blast
  from t2 r2 r3 cols example_prepare_groups
  have b: "load_data_from_gdrive (example_reader example_groups no_aging_visits)
             visit_link group_link = Inr ([Missing_columns_error], None)"
    by blast
  from example_urls id a example_prepare_groups cols b show ?thesis by blast
qed

text \<open>
  The claim as first stated gave both tables the same schema error. Only the visit log has a
  column check of its own (lines 56 to 59); a roster without \<open>ID\<close> ends in the general
  handler of line 87, whose message is the load error.
\<close>

theorem roster_without_id_is_load_error:
  "load_data_from_gdrive (example_reader no_id_groups (sheet [example_visit_row]))
     visit_link group_link = Inr ([Load_error (KeyError ''ID'')], None)
   \<and> columns no_id_groups = [''Agent Name'', ''Group'']
   \<and> Load_error (KeyError ''ID'') \<noteq> Missing_columns_error"
proof -
  have "''ID'' \<notin> strip ` set (columns no_id_groups)"
    by (simp add: no_id_groups_def strip_def isspace_def)
  then have "try_block (example_reader no_id_groups (sheet [example_visit_row]))
               ''https://drive.google.com/uc?export=download&id=V''
               ''https://docs.google.com/spreadsheets/d/G/export?format=xlsx''
             = Inl (KeyError ''ID'')"
    by (intro try_block_roster_parse prepare_groups_no_id) (simp add: example_reader_def)
  then show ?thesis
    by (simp add: load_resolved [OF example_urls] no_id_groups_def)
qed

text \<open>
  Claim C7. \<open>load_data_from_gdrive\<close> always returns, and a failed load is all or nothing:
  whenever a message is shown no table is returned; whenever an exception leaves the body
  of the \<open>try\<close> statement (in particular when reading the roster, preparing it or reading
  the visit log raises), the load error message carrying it is shown and the pair
  \<open>(None, None)\<close> is returned; and when a link does not resolve, \<open>(None, None)\<close> is
  returned as well.
\<close>

theorem load_failure_all_or_nothing:
  "\<exists>shown result.
     load_data_from_gdrive read_excel visit_url group_url = Inr (shown, result)
     \<and> (shown \<noteq> [] \<longrightarrow> result = None)
     \<and> (\<forall>v g e. get_gdrive_download_url visit_url = Inr ([], Some v)
            \<longrightarrow> get_gdrive_download_url group_url = Inr ([], Some g)
            \<longrightarrow> try_block read_excel v g = Inl e
            \<longrightarrow> shown = [Load_error e] \<and> result = None)
     \<and> (\<forall>v g e. get_gdrive_download_url visit_url = Inr ([], Some v)
            \<longrightarrow> get_gdrive_download_url group_url = Inr ([], Some g)
            \<longrightarrow> (read_excel g 0 = Inl e
                 \<or> (\<exists>groups_raw. read_excel g 0 = Inr groups_raw
                        \<and> (prepare_groups groups_raw = Inl e
                           \<or> (\<exists>groups_df collectors_info.
                                 prepare_groups groups_raw = Inr (groups_df, collectors_info)
                                 \<and> read_excel v 1 = Inl e))))
            \<longrightarrow> shown = [Load_error e] \<and> result = None)
     \<and> ((\<exists>w. get_gdrive_download_url visit_url = Inr (w, None))
          \<or> (\<exists>w. get_gdrive_download_url group_url = Inr (w, None))
        \<longrightarrow> result = None)"
proof -
  have raised: "try_block read_excel v g = Inl e"
    if "read_excel g 0 = Inl e
        \<or> (\<exists>groups_raw. read_excel g 0 = Inr groups_raw
              \<and> (prepare_groups groups_raw = Inl e
                 \<or> (\<exists>groups_df collectors_info.
                       prepare_groups groups_raw = Inr (groups_df, collectors_info)
                       \<and> read_excel v 1 = Inl e)))" for v g e
    using that try_block_roster_fetch try_block_roster_parse try_block_visit_fetch by blast
  consider (resolved) v g where "get_gdrive_download_url visit_url = Inr ([], Some v)"
      "get_gdrive_download_url group_url = Inr ([], Some g)"
    | (unresolved) "(\<exists>w. get_gdrive_download_url visit_url = Inr (w, None))
        \<or> (\<exists>w. get_gdrive_download_url group_url = Inr (w, None))"
    using get_gdrive_download_url_cases [of visit_url] get_gdrive_download_url_cases [of group_url]
    by blast
  then show ?thesis
  proof cases
    case resolved
    note l = load_resolved [OF resolved, of read_excel]
    show ?thesis
    proof (cases "try_block read_excel v g")
      case (Inl e)
      then have "load_data_from_gdrive read_excel visit_url group_url = Inr ([Load_error e], None)"
        by (simp add: l)
      then show ?thesis
        using resolved Inl raised by (intro exI [of _ "[Load_error e]"] exI [of _ None]) auto
    next
      case (Inr p)
      obtain shown result where p: "p = (shown, result)" by (cases p)
      from Inr p have t: "try_block read_excel v g = Inr (shown, result)" by simp
      then have "load_data_from_gdrive read_excel visit_url group_url = Inr (shown, result)"
        by (simp add: l)
      then show ?thesis
        using resolved t raised try_block_shown [OF t]
        by (intro exI [of _ shown] exI [of _ result]) auto
    qed
  next
    case unresolved
    then obtain shown
      where "load_data_from_gdrive read_excel visit_url group_url = Inr (shown, None)"
      using get_gdrive_download_url_cases [of visit_url]
        get_gdrive_download_url_cases [of group_url]
      by (auto simp: load_data_from_gdrive_def and_then_def)
    then show ?thesis
      using unresolved by (intro exI [of _ shown] exI [of _ None]) auto
  qed
qed

theorem load_failure_all_or_nothing_witness:
  "get_gdrive_download_url visit_link
     = Inr ([], Some ''https://drive.google.com/uc?export=download&id=V'')
   \<and> get_gdrive_download_url group_link
     = Inr ([], Some ''https://docs.google.com/spreadsheets/d/G/export?format=xlsx'')
   \<and> failing_reader ''https://docs.google.com/spreadsheets/d/G/export?format=xlsx'' 0
     = Inl (ReadError ''https://docs.google.com/spreadsheets/d/G/export?format=xlsx'')
   \<and> load_data_from_gdrive failing_reader visit_link group_link
     = Inr ([Load_error (ReadError ''https://docs.google.com/spreadsheets/d/G/export?format=xlsx'')],
            None)"
proof -
  have f: "failing_reader ''https://docs.google.com/spreadsheets/d/G/export?format=xlsx'' 0
     = Inl (ReadError ''https://docs.google.com/spreadsheets/d/G/export?format=xlsx'')"
    by (simp add: failing_reader_def)
  from load_failure_all_or_nothing [of failing_reader visit_link group_link]
  obtain shown result
    where l: "load_data_from_gdrive failing_reader visit_link group_link = Inr (shown, result)"
      and r: "\<forall>v g e. get_gdrive_download_url visit_link = Inr ([], Some v)
            \<longrightarrow> get_gdrive_download_url group_link = Inr ([], Some g)
            \<longrightarrow> (failing_reader g 0 = Inl e
                 \<or> (\<exists>groups_raw. failing_reader g 0 = Inr groups_raw
                        \<and> (prepare_groups groups_raw = Inl e
                           \<or> (\<exists>groups_df collectors_info.
                                 prepare_groups groups_raw = Inr (groups_df, collectors_info)
                                 \<and> failing_reader v 1 = Inl e))))
            \<longrightarrow> shown = [Load_error e] \<and> result = None"
    by blast
  from r example_urls f
  have "shown = [Load_error (ReadError ''https://docs.google.com/spreadsheets/d/G/export?format=xlsx'')]
        \<and> result = None"
    by blast
  with l example_urls f show ?thesis by simp
qed

subsection \<open>The analysis tabs and the heat map\<close>

text \<open>
  Claim C6. The table of aging labels and counts of the personal tab, and the table of
  labels and averages of the comparison tab, are sorted ascending by the number in the
  label: the sort key of each row is the number of its label, the keys ascend along the
  table, and each count of the personal tab is the number of rows with that label. The number
  of a label is never negative and is 0 for a label without a digit, which therefore sorts
  before every label with a positive number. The table of the personal tab is produced
  whenever the data is not empty, has the column \<open>Aging\<close> and no label holds a number beyond
  the 64-bit range.
\<close>

theorem aging_counts_sorted:
  "(tab2_aging_counts analysis_data = Inr (Chart_data t2)
      \<longrightarrow> sorted (map (\<lambda>(a, n, k). k) t2)
          \<and> list_all (\<lambda>(a, n, k). k = aging_number a
                \<and> n = length (filter (\<lambda>r. r ''Aging'' = a) (rows analysis_data))) t2)
   \<and> (tab3_aging_counts_comp comp_data comparison_collectors = Inr (Chart_data t3)
      \<longrightarrow> sorted (map (\<lambda>(a, n, k). k) t3) \<and> list_all (\<lambda>(a, n, k). k = aging_number a) t3)
   \<and> 0 \<le> aging_number a
   \<and> (list_all (\<lambda>c. \<not> isdigit c) s \<longrightarrow> aging_number (Text s) = 0)
   \<and> (\<not> empty_frame analysis_data \<and> ''Aging'' \<in> set (columns analysis_data)
        \<and> list_all (\<lambda>r. aging_number (r ''Aging'') < 2 ^ 63) (rows analysis_data)
      \<longrightarrow> (\<exists>t. tab2_aging_counts analysis_data = Inr (Chart_data t)))"
proof -
  have p2: "sorted (map (\<lambda>(a, n, k). k) t2)
          \<and> list_all (\<lambda>(a, n, k). k = aging_number a
                \<and> n = length (filter (\<lambda>r. r ''Aging'' = a) (rows analysis_data))) t2"
    if "tab2_aging_counts analysis_data = Inr (Chart_data t2)"
  proof -
    from tab2_table [OF that]
    have t: "t2 = sort_values_AgingSort (map (\<lambda>(a, n). (a, n, aging_number a))
                    (value_counts (map (\<lambda>r. r ''Aging'') (rows analysis_data))))"
      by blast
    have "length (filter (\<lambda>x. x = v) (map (\<lambda>r. r ''Aging'') (rows analysis_data)))
          = length (filter (\<lambda>r. r ''Aging'' = v) (rows analysis_data))" for v
      by (simp add: filter_map comp_def)
    then show ?thesis
      unfolding t by (auto simp: sorted_sort_values list_all_iff set_sort_values value_counts_set)
  qed
  have p3: "sorted (map (\<lambda>(a, n, k). k) t3) \<and> list_all (\<lambda>(a, n, k). k = aging_number a) t3"
    if "tab3_aging_counts_comp comp_data comparison_collectors = Inr (Chart_data t3)"
    using tab3_table [OF that]
    by (auto simp: sorted_sort_values list_all_iff set_sort_values)
  have total: "\<exists>t. tab2_aging_counts analysis_data = Inr (Chart_data t)"
    if "\<not> empty_frame analysis_data" "''Aging'' \<in> set (columns analysis_data)"
       "list_all (\<lambda>r. aging_number (r ''Aging'') < 2 ^ 63) (rows analysis_data)"
  proof -
    have "list_all (\<lambda>(a, n). aging_number a < 2 ^ 63)
            (value_counts (map (\<lambda>r. r ''Aging'') (rows analysis_data)))"
      using that(3) by (auto simp: list_all_iff value_counts_set)
    from with_AgingSort_fits [OF this] that(1,2) show ?thesis
      by (simp add: tab2_aging_counts_def getitem_def and_then_def)
  qed
  from p2 p3 total aging_number_nonneg [of a] aging_number_no_digits [of s] show ?thesis
    by blast
qed

theorem aging_counts_sorted_witness:
  "tab2_aging_counts example_comp
     = Inr (Chart_data [(Text ''X'', 1, 0), (Text ''M2'', 1, 2), (Text ''M3'', 2, 3),
                        (Text ''M10'', 1, 10)])
   \<and> tab3_aging_counts_comp example_comp [Text ''A'', Text ''B'']
     = Inr (Chart_data [(Text ''X'', 1 / 2, 0), (Text ''M2'', 1 / 2, 2), (Text ''M3'', 1, 3)])
   \<and> sorted (map (\<lambda>(a, n, k). k) [(Text ''X'', 1 :: nat, 0 :: int), (Text ''M2'', 1, 2),
                (Text ''M3'', 2, 3), (Text ''M10'', 1, 10)])
   \<and> sorted (map (\<lambda>(a, n, k). k) [(Text ''X'', 1 / 2 :: rat, 0 :: int), (Text ''M2'', 1 / 2, 2),
                (Text ''M3'', 1, 3)])
   \<and> list_all (\<lambda>c. \<not> isdigit c) ''X''
   \<and> aging_number (Text ''X'') = 0
   \<and> aging_number (Text ''M10'') = 10"
proof -
  have x: "list_all (\<lambda>c. \<not> isdigit c) ''X''" by (simp add: isdigit_def)
  have m: "aging_number (Text ''M10'') = 10"
    by (simp add: aging_number_def first_digits_def isdigit_def int_of_digits_def)
  from aging_counts_sorted [where analysis_data = example_comp and comp_data = example_comp
      and comparison_collectors = "[Text ''A'', Text ''B'']" and s = "''X''" and a = "Text ''X''"
      and ?t2.0 = "[(Text ''X'', 1, 0), (Text ''M2'', 1, 2), (Text ''M3'', 2, 3), (Text ''M10'', 1, 10)]"
      and ?t3.0 = "[(Text ''X'', 1 / 2, 0), (Text ''M2'', 1 / 2, 2), (Text ''M3'', 1, 3)]"]
    example_tab2 example_tab3 x m
  show ?thesis by blast
qed

text \<open>
  Claim C4, as amended. With an empty comparison group nothing is averaged: the tab answers
  with the request to select at least one collector, which is shown with \<open>st.info\<close>, and no
  exception is raised. With a group of \<open>N \<ge> 1\<close> selected collectors, a table is returned
  whenever the data has the columns \<open>Collector Name\<close> and \<open>Aging\<close>, some row belongs to the
  group and no label of the group holds a number beyond the 64-bit range. Each average of a
  returned table is the quotient, in double precision, of the number of rows of the group
  with that aging label by \<open>N\<close>; the labels of the table are the labels of the rows of the
  group; and when the data has fewer than \<open>2 ^ 53\<close> rows and the group fewer than \<open>2 ^ 53\<close>
  names, each average differs from the exact quotient by at most the \<open>2 ^ 53\<close>-th part of
  that quotient.
\<close>

theorem comparison_average_float64:
  "tab3_aging_counts_comp comp_data [] = Inr (Message Select_comparison_group_info)
   \<and> level_of Select_comparison_group_info = St_info
   \<and> (comparison_collectors \<noteq> []
       \<and> ''Collector Name'' \<in> set (columns comp_data) \<and> ''Aging'' \<in> set (columns comp_data)
       \<and> filter (\<lambda>r. r ''Collector Name'' \<in> set comparison_collectors) (rows comp_data) \<noteq> []
       \<and> list_all (\<lambda>r. aging_number (r ''Aging'') < 2 ^ 63)
            (filter (\<lambda>r. r ''Collector Name'' \<in> set comparison_collectors) (rows comp_data))
      \<longrightarrow> (\<exists>t. tab3_aging_counts_comp comp_data comparison_collectors = Inr (Chart_data t)))
   \<and> (comparison_collectors \<noteq> []
       \<and> tab3_aging_counts_comp comp_data comparison_collectors = Inr (Chart_data t)
      \<longrightarrow> list_all (\<lambda>(a, avg, k).
              avg = float64_div
                      (float64_of_nat (length (filter
                         (\<lambda>r. r ''Collector Name'' \<in> set comparison_collectors \<and> r ''Aging'' = a)
                         (rows comp_data))))
                      (float64_of_nat (length comparison_collectors))) t
          \<and> (\<lambda>(a, avg, k). a) ` set t
              = {r ''Aging'' | r. r \<in> set (rows comp_data)
                   \<and> r ''Collector Name'' \<in> set comparison_collectors \<and> r ''Aging'' \<noteq> NaN}
          \<and> (length (rows comp_data) < 2 ^ 53 \<and> length comparison_collectors < 2 ^ 53
              \<longrightarrow> list_all (\<lambda>(a, avg, k).
                      \<bar>avg - of_nat (length (filter
                                (\<lambda>r. r ''Collector Name'' \<in> set comparison_collectors
                                       \<and> r ''Aging'' = a) (rows comp_data)))
                             / of_nat (length comparison_collectors)\<bar>
                      \<le> of_nat (length (filter
                                (\<lambda>r. r ''Collector Name'' \<in> set comparison_collectors
                                       \<and> r ''Aging'' = a) (rows comp_data)))
                          / of_nat (length comparison_collectors) / 2 ^ 53) t))"
proof -
  let ?cnt = "\<lambda>a. length (filter (\<lambda>r. r ''Collector Name'' \<in> set comparison_collectors
                                      \<and> r ''Aging'' = a) (rows comp_data))"
  let ?N = "length comparison_collectors"
  let ?labels = "{r ''Aging'' | r. r \<in> set (rows comp_data)
                   \<and> r ''Collector Name'' \<in> set comparison_collectors \<and> r ''Aging'' \<noteq> NaN}"
  have a: "tab3_aging_counts_comp comp_data [] = Inr (Message Select_comparison_group_info)"
    by (simp add: tab3_aging_counts_comp_def)
  have lv: "level_of Select_comparison_group_info = St_info"
    by simp
  have total: "\<exists>t. tab3_aging_counts_comp comp_data comparison_collectors = Inr (Chart_data t)"
    if "comparison_collectors \<noteq> []
       \<and> ''Collector Name'' \<in> set (columns comp_data) \<and> ''Aging'' \<in> set (columns comp_data)
       \<and> filter (\<lambda>r. r ''Collector Name'' \<in> set comparison_collectors) (rows comp_data) \<noteq> []
       \<and> list_all (\<lambda>r. aging_number (r ''Aging'') < 2 ^ 63)
            (filter (\<lambda>r. r ''Collector Name'' \<in> set comparison_collectors) (rows comp_data))"
    using that by (intro tab3_total) simp_all
  have b: "list_all (\<lambda>(a, avg, k).
              avg = float64_div (float64_of_nat (?cnt a)) (float64_of_nat ?N)) t
          \<and> (\<lambda>(a, avg, k). a) ` set t = ?labels
          \<and> (length (rows comp_data) < 2 ^ 53 \<and> ?N < 2 ^ 53
              \<longrightarrow> list_all (\<lambda>(a, avg, k).
                      \<bar>avg - of_nat (?cnt a) / of_nat ?N\<bar> \<le> of_nat (?cnt a) / of_nat ?N / 2 ^ 53) t)"
    if h: "comparison_collectors \<noteq> []
       \<and> tab3_aging_counts_comp comp_data comparison_collectors = Inr (Chart_data t)"
  proof -
    from h have ne: "comparison_collectors \<noteq> []"
      and chart: "tab3_aging_counts_comp comp_data comparison_collectors = Inr (Chart_data t)"
      by simp_all
    note s = tab3_rows [OF chart]
    have avg: "list_all (\<lambda>(a, avg, k).
              avg = float64_div (float64_of_nat (?cnt a)) (float64_of_nat ?N)) t"
      unfolding list_all_iff s by auto
    have lab: "(\<lambda>(a, avg, k). a) ` set t = ?labels"
      unfolding s by (simp add: image_image)
    have err: "list_all (\<lambda>(a, avg, k).
                 \<bar>avg - of_nat (?cnt a) / of_nat ?N\<bar> \<le> of_nat (?cnt a) / of_nat ?N / 2 ^ 53) t"
      if small: "length (rows comp_data) < 2 ^ 53" "?N < 2 ^ 53"
    proof -
      have "\<bar>float64_div (float64_of_nat (?cnt a)) (float64_of_nat ?N)
              - of_nat (?cnt a) / of_nat ?N\<bar> \<le> of_nat (?cnt a) / of_nat ?N / 2 ^ 53"
        if "a \<in> ?labels" for a
      proof -
        from that obtain r where "r \<in> set (rows comp_data)"
          "r ''Collector Name'' \<in> set comparison_collectors" "r ''Aging'' = a"
          by auto
        then have "r \<in> set (filter (\<lambda>r. r ''Collector Name'' \<in> set comparison_collectors
                                      \<and> r ''Aging'' = a) (rows comp_data))"
          by simp
        then have pos: "0 < ?cnt a" by (rule length_pos_if_in_set)
        have "?cnt a \<le> length (rows comp_data)" by (rule length_filter_le)
        with small(1) have c: "?cnt a < 2 ^ 53" by linarith
        have n: "0 < ?N" using ne by simp
        show ?thesis
          unfolding float64_of_nat_small [OF c] float64_of_nat_small [OF small(2)]
          by (rule float64_div_error [OF pos n])
      qed
      then show ?thesis unfolding list_all_iff s by auto
    qed
    from avg lab err show ?thesis by blast
  qed
  from a lv total b show ?thesis by blast
qed

theorem comparison_average_float64_witness:
  "tab3_aging_counts_comp example_comp [] = Inr (Message Select_comparison_group_info)
   \<and> [Text ''A'', Text ''B'', Text ''D''] \<noteq> []
   \<and> ''Collector Name'' \<in> set (columns example_comp) \<and> ''Aging'' \<in> set (columns example_comp)
   \<and> filter (\<lambda>r. r ''Collector Name'' \<in> set [Text ''A'', Text ''B'', Text ''D''])
        (rows example_comp) \<noteq> []
   \<and> list_all (\<lambda>r. aging_number (r ''Aging'') < 2 ^ 63)
        (filter (\<lambda>r. r ''Collector Name'' \<in> set [Text ''A'', Text ''B'', Text ''D''])
           (rows example_comp))
   \<and> tab3_aging_counts_comp example_comp [Text ''A'', Text ''B'', Text ''D'']
     = Inr (Chart_data [(Text ''X'', 6004799503160661 / 18014398509481984, 0),
                        (Text ''M2'', 6004799503160661 / 18014398509481984, 2),
                        (Text ''M3'', 6004799503160661 / 9007199254740992, 3)])
   \<and> list_all (\<lambda>(a, avg, k).
        avg = float64_div
                (float64_of_nat (length (filter
                   (\<lambda>r. r ''Collector Name'' \<in> set [Text ''A'', Text ''B'', Text ''D'']
                          \<and> r ''Aging'' = a) (rows example_comp))))
                (float64_of_nat (length [Text ''A'', Text ''B'', Text ''D''])))
        [(Text ''X'', 6004799503160661 / 18014398509481984 :: rat, 0 :: int),
         (Text ''M2'', 6004799503160661 / 18014398509481984, 2),
         (Text ''M3'', 6004799503160661 / 9007199254740992, 3)]
   \<and> length (rows example_comp) < 2 ^ 53
   \<and> length [Text ''A'', Text ''B'', Text ''D''] < 2 ^ 53
   \<and> list_all (\<lambda>(a, avg, k).
        \<bar>avg - of_nat (length (filter
                   (\<lambda>r. r ''Collector Name'' \<in> set [Text ''A'', Text ''B'', Text ''D'']
                          \<and> r ''Aging'' = a) (rows example_comp)))
               / of_nat (length [Text ''A'', Text ''B'', Text ''D''])\<bar>
        \<le> of_nat (length (filter
                   (\<lambda>r. r ''Collector Name'' \<in> set [Text ''A'', Text ''B'', Text ''D'']
                          \<and> r ''Aging'' = a) (rows example_comp)))
            / of_nat (length [Text ''A'', Text ''B'', Text ''D'']) / 2 ^ 53)
        [(Text ''X'', 6004799503160661 / 18014398509481984 :: rat, 0 :: int),
         (Text ''M2'', 6004799503160661 / 18014398509481984, 2),
         (Text ''M3'', 6004799503160661 / 9007199254740992, 3)]"
proof -
  have n: "[Text ''A'', Text ''B'', Text ''D''] \<noteq> []" by simp
  have c1: "''Collector Name'' \<in> set (columns example_comp)"
    and c2: "''Aging'' \<in> set (columns example_comp)"
    by (simp_all add: example_comp_def)
  have f: "filter (\<lambda>r. r ''Collector Name'' \<in> set [Text ''A'', Text ''B'', Text ''D''])
             (rows example_comp) \<noteq> []"
    by (simp add: example_comp_def)
  have k: "list_all (\<lambda>r. aging_number (r ''Aging'') < 2 ^ 63)
             (filter (\<lambda>r. r ''Collector Name'' \<in> set [Text ''A'', Text ''B'', Text ''D''])
                (rows example_comp))"
    by (simp add: example_comp_def aging_number_def first_digits_def isdigit_def
        int_of_digits_def)
  have s1: "length (rows example_comp) < 2 ^ 53" by (simp add: example_comp_def)
  have s2: "length [Text ''A'', Text ''B'', Text ''D''] < 2 ^ 53" by simp
  note t = comparison_average_float64 [where comp_data = example_comp
      and comparison_collectors = "[Text ''A'', Text ''B'', Text ''D'']"
      and t = "[(Text ''X'', 6004799503160661 / 18014398509481984, 0),
                (Text ''M2'', 6004799503160661 / 18014398509481984, 2),
                (Text ''M3'', 6004799503160661 / 9007199254740992, 3)]"]
  note empty = conjunct1 [OF t]
  note rest = conjunct2 [OF conjunct2 [OF conjunct2 [OF t]]]
  note chart = mp [OF rest conjI [OF n example_tab3_thirds]]
  note avg = conjunct1 [OF chart]
  note err = mp [OF conjunct2 [OF conjunct2 [OF chart]] conjI [OF s1 s2]]
  from empty n c1 c2 f k example_tab3_thirds avg s1 s2 err show ?thesis by (intro conjI)
qed

text \<open>
  The claim as first stated promised that an empty group is answered with an invalid
  argument error, and that each average is the count divided by \<open>N\<close> exactly. The empty
  group is answered with an informational message. For the group of the three collectors A,
  B and C, the label \<open>M2\<close> is on one row of the group, and its average is the double nearest
  to a third, which is smaller than a third.
\<close>

theorem third_of_a_count_is_rounded:
  "tab3_aging_counts_comp example_comp [Text ''A'', Text ''B'', Text ''C'']
     = Inr (Chart_data [(Text ''X'', 6004799503160661 / 18014398509481984, 0),
                        (Text ''M2'', 6004799503160661 / 18014398509481984, 2),
                        (Text ''M3'', 6004799503160661 / 9007199254740992, 3),
                        (Text ''M10'', 6004799503160661 / 18014398509481984, 10)])
   \<and> (6004799503160661 / 18014398509481984 :: rat) < 1 / 3
   \<and> tab3_aging_counts_comp example_comp [] = Inr (Message Select_comparison_group_info)
   \<and> level_of Select_comparison_group_info = St_info"
proof -
  have "tab3_aging_counts_comp example_comp [Text ''A'', Text ''B'', Text ''C'']
     = Inr (Chart_data [(Text ''X'', 6004799503160661 / 18014398509481984, 0),
                        (Text ''M2'', 6004799503160661 / 18014398509481984, 2),
                        (Text ''M3'', 6004799503160661 / 9007199254740992, 3),
                        (Text ''M10'', 6004799503160661 / 18014398509481984, 10)])"
    by (simp add: tab3_aging_counts_comp_def example_comp_def aggregate_eval float_eval
        numeral_2_eq_2 [symmetric] numeral_3_eq_3 [symmetric])
  moreover have "(6004799503160661 / 18014398509481984 :: rat) < 1 / 3"
    by simp
  moreover have "tab3_aging_counts_comp example_comp [] = Inr (Message Select_comparison_group_info)"
    by (simp add: tab3_aging_counts_comp_def)
  moreover have "level_of Select_comparison_group_info = St_info"
    by simp
  ultimately show ?thesis by (intro conjI)
qed

text \<open>
  Claim C9. A count of 0 gets the colour of an empty day whatever the maximum is. For a
  maximum of at least 1 the maximum itself gets the lightness 40, and this is the least
  lightness, the darkest colour, of any count between 1 and the maximum.
\<close>

theorem heatmap_extremes:
  "get_heatmap_color 0 max_count = Hex ''#F3F4F6''
   \<and> (1 \<le> max_count \<longrightarrow> get_heatmap_color max_count max_count = Hsl 220 80 40)
   \<and> (1 \<le> count \<and> count \<le> max_count
      \<longrightarrow> (\<exists>lightness. get_heatmap_color count max_count = Hsl 220 80 lightness
              \<and> 40 \<le> lightness \<and> lightness < 95))"
proof -
  have a: "get_heatmap_color 0 max_count = Hex ''#F3F4F6''"
    by (simp add: get_heatmap_color_def)
  have b: "get_heatmap_color max_count max_count = Hsl 220 80 40" if "1 \<le> max_count"
    using that by (simp add: get_heatmap_color_def Let_def)
  have c: "\<exists>lightness. get_heatmap_color count max_count = Hsl 220 80 lightness
              \<and> 40 \<le> lightness \<and> lightness < 95"
    if "1 \<le> count" "count \<le> max_count"
  proof -
    define q where "q = (of_int count :: rat) / of_int max_count"
    have "0 < q" using that by (simp add: q_def)
    moreover have "q \<le> 1" using that by (simp add: q_def divide_le_eq_1)
    ultimately have "40 \<le> 95 - (q * (9 / 10) + 1 / 10) * 55"
      "95 - (q * (9 / 10) + 1 / 10) * 55 < 95"
      by (simp_all add: algebra_simps)
    then show ?thesis using that unfolding q_def by (simp add: get_heatmap_color_def Let_def)
  qed
  from a b c show ?thesis by blast
qed

theorem heatmap_extremes_witness:
  "get_heatmap_color 0 3 = Hex ''#F3F4F6''
   \<and> (1 :: int) \<le> 3
   \<and> get_heatmap_color 3 3 = Hsl 220 80 40
   \<and> (1 :: int) \<le> 1
   \<and> get_heatmap_color 1 3 = Hsl 220 80 73"
proof -
  have a: "(1 :: int) \<le> 3" "(1 :: int) \<le> 1" by simp_all
  have b: "get_heatmap_color 1 3 = Hsl 220 80 73"
    by (simp add: get_heatmap_color_def Let_def)
  from heatmap_extremes [of 3 1] a b show ?thesis by blast
qed

end
